theory Spec2Isabelle
  imports Complex_Main "HOL-Library.Multiset" "HOL-Library.Sublist"
begin

section \<open>Data model of \<open>src/pages/Index.tsx\<close>\<close>

text \<open>
  The page keeps a list of blocks, a selected block type, a camera rotation and the state
  of the drag gesture in React state cells. The model below is a record of those cells;
  every handler is a function from the old record to the new one.

  Numbers: block coordinates are JavaScript numbers that only ever hold small integers,
  so they are \<open>int\<close>. Camera angles and pointer positions are JavaScript numbers with
  fractional values. They are \<open>real\<close> in two ways. The handlers \<open>dragUpdate\<close> and
  \<open>handlePointerMove\<close> compute with exact reals; they serve the range properties of the
  drag, which do not depend on rounding. The handlers \<open>dragUpdateD\<close> and
  \<open>handlePointerMoveD\<close> and the projection \<open>get3DPosition\<close> round every result to a
  double, as the engine does; they serve the properties that state values.

  Field names: a record field is a global constant, so the fields \<open>x\<close>, \<open>y\<close>, \<open>z\<close>,
  \<open>type\<close>, \<open>left\<close>, \<open>top\<close> of the source carry a prefix here.
\<close>

datatype BlockType = grass | dirt | stone | wood | leaves | planks | air

datatype GameMode = survival | creative

record Block =
  blk_type :: BlockType
  blk_x :: int
  blk_y :: int
  blk_z :: int

text \<open>The inventory entries; the icon glyph of the source is display text and left out.\<close>

record InventoryItem =
  inv_type :: BlockType
  inv_count :: nat
  inv_color :: string

definition BLOCK_SIZE :: int where
  "BLOCK_SIZE = 40"

definition WORLD_SIZE :: int where
  "WORLD_SIZE = 8"

definition inventory :: "InventoryItem list" where
  "inventory =
     [\<lparr>inv_type = grass, inv_count = 64, inv_color = ''#4CAF50''\<rparr>,
      \<lparr>inv_type = dirt, inv_count = 64, inv_color = ''#8B4513''\<rparr>,
      \<lparr>inv_type = stone, inv_count = 64, inv_color = ''#808080''\<rparr>,
      \<lparr>inv_type = wood, inv_count = 32, inv_color = ''#8B4513''\<rparr>,
      \<lparr>inv_type = leaves, inv_count = 32, inv_color = ''#228B22''\<rparr>,
      \<lparr>inv_type = planks, inv_count = 16, inv_color = ''#DEB887''\<rparr>]"

record Rotation =
  rot_x :: real
  rot_y :: real

record Point =
  pt_x :: real
  pt_y :: real

record PointerEvent =
  clientX :: real
  clientY :: real

record State =
  world :: "Block list"
  selectedBlock :: BlockType
  gameMode :: GameMode
  showInventory :: bool
  cameraRotation :: Rotation
  isDragging :: bool
  dragStart :: Point

text \<open>The values the \<open>useState\<close> and \<open>useRef\<close> calls start from.\<close>

definition initialState :: State where
  "initialState =
     \<lparr>world = [], selectedBlock = grass, gameMode = creative, showInventory = False,
      cameraRotation = \<lparr>rot_x = 30, rot_y = 45\<rparr>, isDragging = False,
      dragStart = \<lparr>pt_x = 0, pt_y = 0\<rparr>\<rparr>"

section \<open>Double arithmetic\<close>

text \<open>
  A JavaScript number is an IEEE 754 double: 53 significant bits, and the result of every
  \<open>+\<close>, \<open>-\<close>, \<open>*\<close>, \<open>/\<close> and of every decimal literal is the exact result rounded to
  the nearest double, a tie going to the even significand. A double is modelled by the real
  number it denotes. The exponent range is not bounded: overflow, subnormal numbers, NaN
  and the sign of zero are outside the model, and the angles, pixel positions and block
  positions of the page are many orders of magnitude inside the normal range. Negation is
  exact in doubles.
\<close>

definition rne :: "real \<Rightarrow> int" where
  "rne x =
     (let f = \<lfloor>x\<rfloor>; d = x - of_int f
      in if d < 1 / 2 then f
         else if 1 / 2 < d then f + 1
         else if even f then f else f + 1)"

text \<open>The distance between neighbouring doubles at the magnitude of \<open>v\<close>.\<close>

definition ulp :: "real \<Rightarrow> real" where
  "ulp v = 2 powr (of_int \<lfloor>log 2 \<bar>v\<bar>\<rfloor> - 52)"

definition toDouble :: "real \<Rightarrow> real" where
  "toDouble v = (if v = 0 then 0 else of_int (rne (v / ulp v)) * ulp v)"

definition fadd :: "real \<Rightarrow> real \<Rightarrow> real" where
  "fadd a b = toDouble (a + b)"

definition fsub :: "real \<Rightarrow> real \<Rightarrow> real" where
  "fsub a b = toDouble (a - b)"

definition fmul :: "real \<Rightarrow> real \<Rightarrow> real" where
  "fmul a b = toDouble (a * b)"

definition fdiv :: "real \<Rightarrow> real \<Rightarrow> real" where
  "fdiv a b = toDouble (a / b)"

text \<open>\<open>Math.PI\<close> is the double nearest to \<open>\<pi>\<close>.\<close>

definition Math_PI :: real where
  "Math_PI = toDouble pi"

section \<open>Camera drag\<close>

text \<open>
  The remainder operator \<open>%\<close> of JavaScript truncates the quotient towards zero, so the
  result has the sign of the dividend. On finite operands with a non-zero divisor the
  operator is exact.
\<close>

definition js_trunc :: "real \<Rightarrow> int" where
  "js_trunc r = (if r < 0 then \<lceil>r\<rceil> else \<lfloor>r\<rfloor>)"

definition js_rem :: "real \<Rightarrow> real \<Rightarrow> real" where
  "js_rem a b = a - b * of_int (js_trunc (a / b))"

text \<open>The updater passed to \<open>setCameraRotation\<close>, with the two deltas it closes over.\<close>

definition dragUpdate :: "real \<Rightarrow> real \<Rightarrow> Rotation \<Rightarrow> Rotation" where
  "dragUpdate deltaX deltaY prev =
     \<lparr>rot_x = max (- 90) (min 90 (rot_x prev + deltaY * 0.3)),
      rot_y = js_rem (rot_y prev + deltaX * 0.3) 360\<rparr>"

definition handlePointerDown :: "PointerEvent \<Rightarrow> State \<Rightarrow> State" where
  "handlePointerDown e s =
     s\<lparr>isDragging := True, dragStart := \<lparr>pt_x = clientX e, pt_y = clientY e\<rparr>\<rparr>"

definition handlePointerMove :: "PointerEvent \<Rightarrow> State \<Rightarrow> State" where
  "handlePointerMove e s =
     (if \<not> isDragging s then s
      else
        let deltaX = clientX e - pt_x (dragStart s);
            deltaY = clientY e - pt_y (dragStart s)
        in s\<lparr>cameraRotation := dragUpdate deltaX deltaY (cameraRotation s),
              dragStart := \<lparr>pt_x = clientX e, pt_y = clientY e\<rparr>\<rparr>)"

definition handlePointerUp :: "State \<Rightarrow> State" where
  "handlePointerUp s = s\<lparr>isDragging := False\<rparr>"

text \<open>
  The same handler in double arithmetic. \<open>dragTarget v d\<close> is the expression
  \<open>prev.x + deltaY * 0.3\<close> (and \<open>prev.y + deltaX * 0.3\<close>) as the engine evaluates it: the
  literal, the product and the sum are each rounded. \<open>Math.max\<close>, \<open>Math.min\<close> and \<open>%\<close>
  return exact results.
\<close>

definition dragTarget :: "real \<Rightarrow> real \<Rightarrow> real" where
  "dragTarget v d = fadd v (fmul d (toDouble (3 / 10)))"

definition dragUpdateD :: "real \<Rightarrow> real \<Rightarrow> Rotation \<Rightarrow> Rotation" where
  "dragUpdateD deltaX deltaY prev =
     \<lparr>rot_x = max (- 90) (min 90 (dragTarget (rot_x prev) deltaY)),
      rot_y = js_rem (dragTarget (rot_y prev) deltaX) 360\<rparr>"

definition deltaX :: "PointerEvent \<Rightarrow> State \<Rightarrow> real" where
  "deltaX e s = fsub (clientX e) (pt_x (dragStart s))"

definition deltaY :: "PointerEvent \<Rightarrow> State \<Rightarrow> real" where
  "deltaY e s = fsub (clientY e) (pt_y (dragStart s))"

definition handlePointerMoveD :: "PointerEvent \<Rightarrow> State \<Rightarrow> State" where
  "handlePointerMoveD e s =
     (if \<not> isDragging s then s
      else s\<lparr>cameraRotation := dragUpdateD (deltaX e s) (deltaY e s) (cameraRotation s),
             dragStart := \<lparr>pt_x = clientX e, pt_y = clientY e\<rparr>\<rparr>)"

section \<open>Projection\<close>

record ScreenPos =
  pos_left :: real
  pos_top :: real
  pos_zIndex :: int

text \<open>
  \<open>get3DPosition\<close> reads the camera rotation from the enclosing state; here it is an
  argument. \<open>Math.cos\<close> and \<open>Math.sin\<close> are approximations that the language leaves to
  the engine, so the two functions are arguments as well: \<open>mcos\<close> and \<open>msin\<close> stand for
  whatever the engine computes. Every arithmetic step is rounded to a double;
  \<open>Math.floor\<close> is exact.
\<close>

definition get3DPosition ::
  "(real \<Rightarrow> real) \<Rightarrow> (real \<Rightarrow> real) \<Rightarrow> Rotation \<Rightarrow> int \<Rightarrow> int \<Rightarrow> int \<Rightarrow> ScreenPos" where
  "get3DPosition mcos msin rot x y z =
     (let radX = fdiv (fmul (rot_x rot) Math_PI) 180;
          radY = fdiv (fmul (rot_y rot) Math_PI) 180;
          cosX = mcos radX;
          sinX = msin radX;
          cosY = mcos radY;
          sinY = msin radY;
          centerOffset = fdiv (fmul (real_of_int WORLD_SIZE) (real_of_int BLOCK_SIZE)) 2;
          px = fsub (fmul (real_of_int x) (real_of_int BLOCK_SIZE)) centerOffset;
          py = - fmul (real_of_int y) (real_of_int BLOCK_SIZE);
          pz = fsub (fmul (real_of_int z) (real_of_int BLOCK_SIZE)) centerOffset;
          x1 = fadd (fmul px cosY) (fmul pz sinY);
          z1 = fadd (fmul (- px) sinY) (fmul pz cosY);
          y1 = fsub (fmul py cosX) (fmul z1 sinX);
          z2 = fadd (fmul py sinX) (fmul z1 cosX)
      in \<lparr>pos_left = fadd x1 300, pos_top = fadd y1 300, pos_zIndex = \<lfloor>fsub 1000 z2\<rfloor>\<rparr>)"

text \<open>
  The projection as the specification words it: the angle in radians, the centred
  position, one plane rotation for the yaw and the same plane rotation for the pitch, and
  the depth that is left. The rotation takes the cosine and the sine of its angle.
\<close>

definition radians :: "real \<Rightarrow> real" where
  "radians d = fdiv (fmul d Math_PI) 180"

definition rotate2 :: "real \<Rightarrow> real \<Rightarrow> real \<times> real \<Rightarrow> real \<times> real" where
  "rotate2 c s p =
     (fsub (fmul (fst p) c) (fmul (snd p) s), fadd (fmul (fst p) s) (fmul (snd p) c))"

definition centred :: "int \<Rightarrow> int \<Rightarrow> int \<Rightarrow> real \<times> real \<times> real" where
  "centred x y z =
     (let S = real_of_int BLOCK_SIZE;
          C = fdiv (fmul (real_of_int WORLD_SIZE) (real_of_int BLOCK_SIZE)) 2
      in (fsub (fmul (real_of_int x) S) C, - fmul (real_of_int y) S,
          fsub (fmul (real_of_int z) S) C))"

definition spec_depth ::
  "(real \<Rightarrow> real) \<Rightarrow> (real \<Rightarrow> real) \<Rightarrow> Rotation \<Rightarrow> int \<Rightarrow> int \<Rightarrow> int \<Rightarrow> real" where
  "spec_depth mcos msin rot x y z =
     (case centred x y z of (px, py, pz) \<Rightarrow>
        let yawed = rotate2 (mcos (radians (rot_y rot))) (msin (radians (rot_y rot))) (pz, px);
            pitched = rotate2 (mcos (radians (rot_x rot))) (msin (radians (rot_x rot)))
                        (py, fst yawed)
        in snd pitched)"

definition spec_screen ::
  "(real \<Rightarrow> real) \<Rightarrow> (real \<Rightarrow> real) \<Rightarrow> Rotation \<Rightarrow> int \<Rightarrow> int \<Rightarrow> int \<Rightarrow> real \<times> real" where
  "spec_screen mcos msin rot x y z =
     (case centred x y z of (px, py, pz) \<Rightarrow>
        let yawed = rotate2 (mcos (radians (rot_y rot))) (msin (radians (rot_y rot))) (pz, px);
            pitched = rotate2 (mcos (radians (rot_x rot))) (msin (radians (rot_x rot)))
                        (py, fst yawed)
        in (fadd (snd yawed) 300, fadd (fst pitched) 300))"

text \<open>
  One engine to evaluate with: its \<open>Math.cos\<close> and \<open>Math.sin\<close> return the double
  nearest to the cosine and the sine of their argument.
\<close>

definition roundedCos :: "real \<Rightarrow> real" where
  "roundedCos t = toDouble (cos t)"

definition roundedSin :: "real \<Rightarrow> real" where
  "roundedSin t = toDouble (sin t)"

section \<open>World operations\<close>

text \<open>
  The two updaters that \<open>handleBlockClick\<close> passes to \<open>setWorld\<close>: the spread with one
  new element, and the filter on the exact coordinates. Both build a new array.
\<close>

definition addBlock :: "BlockType \<Rightarrow> int \<Rightarrow> int \<Rightarrow> int \<Rightarrow> Block list \<Rightarrow> Block list" where
  "addBlock t x y z prev = prev @ [\<lparr>blk_type = t, blk_x = x, blk_y = y, blk_z = z\<rparr>]"

definition removeBlockAt :: "int \<Rightarrow> int \<Rightarrow> int \<Rightarrow> Block list \<Rightarrow> Block list" where
  "removeBlockAt x y z prev =
     filter (\<lambda>b. \<not> (blk_x b = x \<and> blk_y b = y \<and> blk_z b = z)) prev"

definition handleBlockClick :: "int \<Rightarrow> int \<Rightarrow> int \<Rightarrow> bool \<Rightarrow> State \<Rightarrow> State" where
  "handleBlockClick x y z isRightClick s =
     (if isRightClick \<and> selectedBlock s \<noteq> air
      then s\<lparr>world := addBlock (selectedBlock s) x (y + 1) z (world s)\<rparr>
      else s\<lparr>world := removeBlockAt x y z (world s)\<rparr>)"

text \<open>The handler of the destroy button. \<open>Math.floor(WORLD_SIZE/2)\<close> is \<open>WORLD_SIZE div 2\<close>.\<close>

definition destroyClick :: "State \<Rightarrow> State" where
  "destroyClick s =
     (case find (\<lambda>b. blk_x b = WORLD_SIZE div 2 \<and> blk_z b = WORLD_SIZE div 2 \<and> blk_y b > 0)
             (world s) of
        None \<Rightarrow> s
      | Some centerBlock \<Rightarrow>
          handleBlockClick (blk_x centerBlock) (blk_y centerBlock) (blk_z centerBlock) False s)"

text \<open>
  The handler of the build button: \<open>Math.max\<close> receives the heights of the blocks of the
  centre column followed by the literal \<open>0\<close>.
\<close>

definition buildClick :: "State \<Rightarrow> State" where
  "buildClick s =
     (let centerX = WORLD_SIZE div 2;
          centerZ = WORLD_SIZE div 2;
          maxY = foldr max
                   (map blk_y (filter (\<lambda>b. blk_x b = centerX \<and> blk_z b = centerZ) (world s))) 0
      in handleBlockClick centerX maxY centerZ True s)"

text \<open>The heights of the blocks of one column, in the order of the world.\<close>

definition columnHeights :: "int \<Rightarrow> int \<Rightarrow> Block list \<Rightarrow> int list" where
  "columnHeights x z w = map blk_y (filter (\<lambda>b. blk_x b = x \<and> blk_z b = z) w)"

definition selectItem :: "InventoryItem \<Rightarrow> State \<Rightarrow> State" where
  "selectItem item s = s\<lparr>selectedBlock := inv_type item, showInventory := False\<rparr>"

definition toggleInventory :: "State \<Rightarrow> State" where
  "toggleInventory s = s\<lparr>showInventory := \<not> showInventory s\<rparr>"

section \<open>Initial world\<close>

text \<open>
  \<open>Math.random\<close> is a sequence of numbers in \<open>[0, 1)\<close> read in call order: \<open>rnd k\<close> is
  the result of call number \<open>k\<close>, and the generator threads the call counter.
\<close>

definition genCell :: "(nat \<Rightarrow> real) \<Rightarrow> int \<Rightarrow> int \<Rightarrow> Block list \<times> nat \<Rightarrow> Block list \<times> nat" where
  "genCell rnd x z acc =
     (let w1 = fst acc @ [\<lparr>blk_type = grass, blk_x = x, blk_y = 0, blk_z = z\<rparr>];
          w2 = (if rnd (snd acc) > 0.7
                then w1 @ [\<lparr>blk_type = dirt, blk_x = x, blk_y = 1, blk_z = z\<rparr>]
                else w1)
      in (w2, Suc (snd acc)))"

definition genGround :: "(nat \<Rightarrow> real) \<Rightarrow> Block list \<times> nat" where
  "genGround rnd =
     fold (\<lambda>x. fold (\<lambda>z. genCell rnd x z) [0..WORLD_SIZE - 1]) [0..WORLD_SIZE - 1] ([], 0)"

definition genTree :: "(nat \<Rightarrow> real) \<Rightarrow> Block list \<times> nat \<Rightarrow> Block list \<times> nat" where
  "genTree rnd acc =
     (let x = \<lfloor>rnd (snd acc) * real_of_int (WORLD_SIZE - 1)\<rfloor>;
          z = \<lfloor>rnd (Suc (snd acc)) * real_of_int (WORLD_SIZE - 1)\<rfloor>
      in (fst acc @
            [\<lparr>blk_type = wood, blk_x = x, blk_y = 1, blk_z = z\<rparr>,
             \<lparr>blk_type = wood, blk_x = x, blk_y = 2, blk_z = z\<rparr>,
             \<lparr>blk_type = leaves, blk_x = x, blk_y = 3, blk_z = z\<rparr>],
          Suc (Suc (snd acc))))"

definition initialWorld :: "(nat \<Rightarrow> real) \<Rightarrow> Block list" where
  "initialWorld rnd = fst (fold (\<lambda>i. genTree rnd) [0 ..< 3] (genGround rnd))"

section \<open>Depth sort\<close>

definition distSq :: "Block \<Rightarrow> int" where
  "distSq b = blk_x b * blk_x b + blk_y b * blk_y b + blk_z b * blk_z b"

definition compareBlocks :: "Block \<Rightarrow> Block \<Rightarrow> int" where
  "compareBlocks a b = (let distA = distSq a; distB = distSq b in distB - distA)"

text \<open>
  \<open>Array.prototype.sort\<close> is a stable sort: an element goes before another when the
  comparator is negative, and elements that compare equal keep their order. For a
  comparator that is a difference of keys this fixes the result, so insertion from the
  right, each element placed before the first one it does not have to follow, computes it.
\<close>

fun js_insert :: "('a \<Rightarrow> 'a \<Rightarrow> int) \<Rightarrow> 'a \<Rightarrow> 'a list \<Rightarrow> 'a list" where
  "js_insert cmp a [] = [a]"
| "js_insert cmp a (b # bs) = (if cmp a b \<le> 0 then a # b # bs else b # js_insert cmp a bs)"

definition js_sort :: "('a \<Rightarrow> 'a \<Rightarrow> int) \<Rightarrow> 'a list \<Rightarrow> 'a list" where
  "js_sort cmp xs = foldr (js_insert cmp) xs []"

definition sortedWorld :: "Block list \<Rightarrow> Block list" where
  "sortedWorld w = js_sort compareBlocks w"

section \<open>Events of the page\<close>

datatype Event =
    Mount "nat \<Rightarrow> real"
  | PointerDown PointerEvent
  | PointerMove PointerEvent
  | PointerUp
  | PointerLeave
  | BlockClick int int int
  | BlockContextMenu int int int
  | SetGameMode GameMode
  | ToggleInventory
  | SelectItem InventoryItem
  | Destroy
  | Build

text \<open>
  One event, one handler. The mount effect stores the generated world. An inventory button
  exists only for the entries of \<open>inventory\<close>. Block clicks are allowed at any coordinates,
  which includes the ones of rendered blocks.
\<close>

fun step :: "Event \<Rightarrow> State \<Rightarrow> State" where
  "step (Mount rnd) s = s\<lparr>world := initialWorld rnd\<rparr>"
| "step (PointerDown e) s = handlePointerDown e s"
| "step (PointerMove e) s = handlePointerMove e s"
| "step PointerUp s = handlePointerUp s"
| "step PointerLeave s = handlePointerUp s"
| "step (BlockClick x y z) s = handleBlockClick x y z False s"
| "step (BlockContextMenu x y z) s = handleBlockClick x y z True s"
| "step (SetGameMode v) s = s\<lparr>gameMode := v\<rparr>"
| "step ToggleInventory s = toggleInventory s"
| "step (SelectItem item) s = (if item \<in> set inventory then selectItem item s else s)"
| "step Destroy s = destroyClick s"
| "step Build s = buildClick s"

inductive reachable :: "State \<Rightarrow> bool" where
  reachable_init: "reachable initialState"
| reachable_step: "reachable s \<Longrightarrow> reachable (step ev s)"

text \<open>
  The states of the page proper: a block click or context menu happens on a tile, that
  is, at the coordinates of a block of the world.
\<close>

fun onTile :: "Event \<Rightarrow> State \<Rightarrow> bool" where
  "onTile (BlockClick x y z) s =
     list_ex (\<lambda>b. blk_x b = x \<and> blk_y b = y \<and> blk_z b = z) (world s)"
| "onTile (BlockContextMenu x y z) s =
     list_ex (\<lambda>b. blk_x b = x \<and> blk_y b = y \<and> blk_z b = z) (world s)"
| "onTile ev s = True"

inductive uiReachable :: "State \<Rightarrow> bool" where
  ui_init: "uiReachable initialState"
| ui_step: "uiReachable s \<Longrightarrow> onTile ev s \<Longrightarrow> uiReachable (step ev s)"

definition noAir :: "Block list \<Rightarrow> bool" where
  "noAir w = list_all (\<lambda>b. blk_type b \<noteq> air) w"

definition generated :: "Block list \<Rightarrow> bool" where
  "generated w = (\<forall>b \<in> set w. blk_type b \<in> {grass, dirt, wood, leaves})"

section \<open>Arrays as objects\<close>

text \<open>
  In the page an array is an object: \<open>sort\<close> reorders the array it is called on, while the
  spread \<open>[...a]\<close>, \<open>[...a, b]\<close> and \<open>filter\<close> build a new one. The store below makes that
  explicit. A reference is a number, \<open>fresh\<close> is the next unused one, and a reference that
  was never allocated holds the empty array (the page cannot name one).
\<close>

record Heap =
  cells :: "nat \<Rightarrow> Block list"
  fresh :: nat

definition array_new :: "Block list \<Rightarrow> Heap \<Rightarrow> nat \<times> Heap" where
  "array_new xs h = (fresh h, h\<lparr>cells := (cells h)(fresh h := xs), fresh := Suc (fresh h)\<rparr>)"

definition array_spread :: "nat \<Rightarrow> Heap \<Rightarrow> nat \<times> Heap" where
  "array_spread r h = array_new (cells h r) h"

definition array_spread_with :: "nat \<Rightarrow> Block \<Rightarrow> Heap \<Rightarrow> nat \<times> Heap" where
  "array_spread_with r b h = array_new (cells h r @ [b]) h"

definition array_filter :: "(Block \<Rightarrow> bool) \<Rightarrow> nat \<Rightarrow> Heap \<Rightarrow> nat \<times> Heap" where
  "array_filter p r h = array_new (filter p (cells h r)) h"

definition array_sort :: "(Block \<Rightarrow> Block \<Rightarrow> int) \<Rightarrow> nat \<Rightarrow> Heap \<Rightarrow> nat \<times> Heap" where
  "array_sort cmp r h = (r, h\<lparr>cells := (cells h)(r := js_sort cmp (cells h r))\<rparr>)"

text \<open>The part of the page state that the world array lives in: the store, the reference
  held by the \<open>world\<close> state cell, and the selected block type.\<close>

record HState =
  heap :: Heap
  worldRef :: nat
  hselected :: BlockType

definition storedWorld :: "HState \<Rightarrow> Block list" where
  "storedWorld hs = cells (heap hs) (worldRef hs)"

definition h_handleBlockClick :: "int \<Rightarrow> int \<Rightarrow> int \<Rightarrow> bool \<Rightarrow> HState \<Rightarrow> HState" where
  "h_handleBlockClick x y z isRightClick hs =
     (if isRightClick \<and> hselected hs \<noteq> air
      then
        (case array_spread_with (worldRef hs)
                \<lparr>blk_type = hselected hs, blk_x = x, blk_y = y + 1, blk_z = z\<rparr> (heap hs) of
           (r, h) \<Rightarrow> hs\<lparr>heap := h, worldRef := r\<rparr>)
      else
        (case array_filter (\<lambda>b. \<not> (blk_x b = x \<and> blk_y b = y \<and> blk_z b = z))
                (worldRef hs) (heap hs) of
           (r, h) \<Rightarrow> hs\<lparr>heap := h, worldRef := r\<rparr>))"

text \<open>One render: the copy, the sort of the copy, and the array that is mapped to tiles.\<close>

definition h_render :: "HState \<Rightarrow> Block list \<times> HState" where
  "h_render hs =
     (case array_spread (worldRef hs) (heap hs) of
        (c, h1) \<Rightarrow>
          (case array_sort compareBlocks c h1 of
             (s, h2) \<Rightarrow> (cells h2 s, hs\<lparr>heap := h2\<rparr>)))"

datatype HEvent = HClick int int int bool | HSelect BlockType | HRender

fun h_step :: "HEvent \<Rightarrow> HState \<Rightarrow> HState" where
  "h_step (HClick x y z isRightClick) hs = h_handleBlockClick x y z isRightClick hs"
| "h_step (HSelect t) hs = hs\<lparr>hselected := t\<rparr>"
| "h_step HRender hs = snd (h_render hs)"

definition h_run :: "HEvent list \<Rightarrow> HState \<Rightarrow> HState" where
  "h_run evs hs = fold h_step evs hs"

definition isRender :: "HEvent \<Rightarrow> bool" where
  "isRender ev = (case ev of HRender \<Rightarrow> True | _ \<Rightarrow> False)"

text \<open>The world cell refers to an array that exists.\<close>

definition allocated :: "HState \<Rightarrow> bool" where
  "allocated hs = (worldRef hs < fresh (heap hs))"

text \<open>After \<open>useState([])\<close>: one empty array, held by the world cell.\<close>

definition h_initial :: HState where
  "h_initial = \<lparr>heap = \<lparr>cells = (\<lambda>r. []), fresh = 1\<rparr>, worldRef = 0, hselected = grass\<rparr>"

text \<open>
  The world as an insertion-ordered sequence: a placing click appends at the end, a
  removing click deletes the blocks at the coordinates and keeps the order of the rest, a
  selection changes the material of later placements, and a render changes nothing.
\<close>

fun worldAfter :: "HEvent list \<Rightarrow> BlockType \<Rightarrow> Block list \<Rightarrow> Block list" where
  "worldAfter [] sel w = w"
| "worldAfter (HClick x y z isRightClick # evs) sel w =
     worldAfter evs sel
       (if isRightClick \<and> sel \<noteq> air
        then w @ [\<lparr>blk_type = sel, blk_x = x, blk_y = y + 1, blk_z = z\<rparr>]
        else filter (\<lambda>b. \<not> (blk_x b = x \<and> blk_y b = y \<and> blk_z b = z)) w)"
| "worldAfter (HSelect t # evs) sel w = worldAfter evs t w"
| "worldAfter (HRender # evs) sel w = worldAfter evs sel w"

section \<open>The remainder operator\<close>

lemma js_rem_nonneg:
  assumes "0 \<le> a" "0 < b"
  shows "0 \<le> js_rem a b \<and> js_rem a b < b"
proof -
  have q: "0 \<le> a / b" using assms by simp
  have eq: "js_rem a b = a - b * of_int \<lfloor>a / b\<rfloor>"
    using q by (simp add: js_rem_def js_trunc_def)
  have "of_int \<lfloor>a / b\<rfloor> * b \<le> a"
    using assms(2) by (rule floor_divide_lower)
  moreover have "a < (of_int \<lfloor>a / b\<rfloor> + 1) * b"
    using assms(2) by (rule floor_divide_upper)
  ultimately show ?thesis unfolding eq by (simp add: algebra_simps)
qed

lemma js_rem_nonpos:
  assumes "a \<le> 0" "0 < b"
  shows "- b < js_rem a b \<and> js_rem a b \<le> 0"
proof (cases "a / b < 0")
  case True
  have eq: "js_rem a b = a - b * of_int \<lceil>a / b\<rceil>"
    using True by (simp add: js_rem_def js_trunc_def)
  have "a \<le> of_int \<lceil>a / b\<rceil> * b"
    using assms(2) by (rule ceiling_divide_upper)
  moreover have "(of_int \<lceil>a / b\<rceil> - 1) * b < a"
    using assms(2) by (rule ceiling_divide_lower)
  ultimately show ?thesis unfolding eq by (simp add: algebra_simps)
next
  case False
  then have "a = 0" using assms by (simp add: divide_less_0_iff)
  then show ?thesis using assms by (simp add: js_rem_def js_trunc_def)
qed

lemma js_rem_small:
  assumes "0 \<le> a" "a < b"
  shows "js_rem a b = a"
proof -
  have "0 \<le> a / b" "a / b < 1" using assms by simp_all
  then have "\<lfloor>a / b\<rfloor> = 0" by linarith
  then show ?thesis using \<open>0 \<le> a / b\<close> by (simp add: js_rem_def js_trunc_def)
qed

lemma js_rem_multiple: "\<exists>n::int. js_rem a b = a - b * of_int n"
  unfolding js_rem_def by blast

lemma handlePointerMove_dragging:
  "isDragging s \<Longrightarrow>
   cameraRotation (handlePointerMove e s) =
     dragUpdate (clientX e - pt_x (dragStart s)) (clientY e - pt_y (dragStart s))
       (cameraRotation s)"
  by (simp add: handlePointerMove_def Let_def)

lemma handlePointerMove_idle:
  "\<not> isDragging s \<Longrightarrow> handlePointerMove e s = s"
  by (simp add: handlePointerMove_def)


section \<open>Claims about the camera drag\<close>




text \<open>
  Claim C4: from an x rotation in \<open>[-90, 90]\<close>, a pointer move leaves the x rotation in
  \<open>[-90, 90]\<close> (the drag update clamps whatever it starts from); from x = 85, a move of 100
  pixels down gives exactly 90.
\<close>

theorem drag_x_clamped:
  assumes "- 90 \<le> rot_x (cameraRotation s)" and "rot_x (cameraRotation s) \<le> 90"
  shows "- 90 \<le> rot_x (cameraRotation (handlePointerMove e s))
       \<and> rot_x (cameraRotation (handlePointerMove e s)) \<le> 90
       \<and> - 90 \<le> rot_x (dragUpdate dx dy prev)
       \<and> rot_x (dragUpdate dx dy prev) \<le> 90
       \<and> rot_x (cameraRotation (handlePointerMove \<lparr>clientX = 0, clientY = 100\<rparr>
            (handlePointerDown \<lparr>clientX = 0, clientY = 0\<rparr>
               (initialState\<lparr>cameraRotation := \<lparr>rot_x = 85, rot_y = 45\<rparr>\<rparr>)))) = 90"
proof -
  have upd: "- 90 \<le> rot_x (dragUpdate a b r) \<and> rot_x (dragUpdate a b r) \<le> 90" for a b r
    by (simp add: dragUpdate_def)
  have move: "- 90 \<le> rot_x (cameraRotation (handlePointerMove e s))
            \<and> rot_x (cameraRotation (handlePointerMove e s)) \<le> 90"
  proof (cases "isDragging s")
    case True
    then show ?thesis using upd by (simp add: handlePointerMove_dragging)
  next
    case False
    then show ?thesis using assms by (simp add: handlePointerMove_idle)
  qed
  have scen: "rot_x (cameraRotation (handlePointerMove \<lparr>clientX = 0, clientY = 100\<rparr>
            (handlePointerDown \<lparr>clientX = 0, clientY = 0\<rparr>
               (initialState\<lparr>cameraRotation := \<lparr>rot_x = 85, rot_y = 45\<rparr>\<rparr>)))) = 90"
    by (simp add: handlePointerMove_def handlePointerDown_def initialState_def dragUpdate_def)
  from move upd [of dx dy prev] scen show ?thesis by blast
qed

text \<open>The theorem of C4 at the scenario's state: x = 85, drag active, 100 pixels down.\<close>

theorem drag_x_clamped_witness:
  "- 90 \<le> rot_x (cameraRotation (handlePointerDown \<lparr>clientX = 0, clientY = 0\<rparr>
               (initialState\<lparr>cameraRotation := \<lparr>rot_x = 85, rot_y = 45\<rparr>\<rparr>)))
   \<and> rot_x (cameraRotation (handlePointerDown \<lparr>clientX = 0, clientY = 0\<rparr>
               (initialState\<lparr>cameraRotation := \<lparr>rot_x = 85, rot_y = 45\<rparr>\<rparr>))) \<le> 90
   \<and> rot_x (cameraRotation (handlePointerMove \<lparr>clientX = 0, clientY = 100\<rparr>
            (handlePointerDown \<lparr>clientX = 0, clientY = 0\<rparr>
               (initialState\<lparr>cameraRotation := \<lparr>rot_x = 85, rot_y = 45\<rparr>\<rparr>)))) \<le> 90"
proof -
  let ?s = "handlePointerDown \<lparr>clientX = 0, clientY = 0\<rparr>
              (initialState\<lparr>cameraRotation := \<lparr>rot_x = 85, rot_y = 45\<rparr>\<rparr>)"
  have lo: "- 90 \<le> rot_x (cameraRotation ?s)"
    by (simp add: handlePointerDown_def initialState_def)
  have hi: "rot_x (cameraRotation ?s) \<le> 90"
    by (simp add: handlePointerDown_def initialState_def)
  show ?thesis
    using lo hi drag_x_clamped [OF lo hi, of "\<lparr>clientX = 0, clientY = 100\<rparr>"] by blast
qed

section \<open>The sort\<close>

lemma compareBlocks_le: "compareBlocks a b \<le> 0 \<longleftrightarrow> distSq b \<le> distSq a"
  by (simp add: compareBlocks_def Let_def)

lemma mset_js_insert: "mset (js_insert cmp a xs) = add_mset a (mset xs)"
  by (induction xs) simp_all

lemma mset_js_sort: "mset (js_sort cmp xs) = mset xs"
  unfolding js_sort_def by (induction xs) (simp_all add: mset_js_insert)

lemma set_js_insert: "set (js_insert cmp a xs) = insert a (set xs)"
  by (induction xs) auto

lemma descending_js_insert:
  "sorted_wrt (\<lambda>a b. distSq b \<le> distSq a) xs \<Longrightarrow>
   sorted_wrt (\<lambda>a b. distSq b \<le> distSq a) (js_insert compareBlocks a xs)"
proof (induction xs)
  case Nil
  show ?case by simp
next
  case (Cons b bs)
  show ?case
  proof (cases "distSq b \<le> distSq a")
    case True
    with Cons.prems show ?thesis
      by (auto simp: compareBlocks_le)
  next
    case False
    with Cons show ?thesis
      by (auto simp: compareBlocks_le set_js_insert)
  qed
qed

lemma descending_js_sort:
  "sorted_wrt (\<lambda>a b. distSq b \<le> distSq a) (js_sort compareBlocks xs)"
  unfolding js_sort_def by (induction xs) (simp_all add: descending_js_insert)

text \<open>An inserted block only passes blocks that are strictly farther, so the blocks of
  one distance never change their order.\<close>

lemma filter_key_js_insert:
  "filter (\<lambda>b. distSq b = k) (js_insert compareBlocks a xs) =
   filter (\<lambda>b. distSq b = k) (a # xs)"
  by (induction xs) (auto simp: compareBlocks_le)

lemma filter_key_js_sort:
  "filter (\<lambda>b. distSq b = k) (js_sort compareBlocks xs) = filter (\<lambda>b. distSq b = k) xs"
  unfolding js_sort_def by (induction xs) (simp_all add: filter_key_js_insert)

text \<open>
  The three properties determine the result: whatever algorithm the engine runs, a stable
  sort with this comparator returns the list that \<open>sortedWorld\<close> computes.
\<close>

lemma stable_sort_unique:
  assumes "mset ys = mset w"
    and "sorted_wrt (\<lambda>a b. distSq b \<le> distSq a) ys"
    and "\<And>k. filter (\<lambda>b. distSq b = k) ys = filter (\<lambda>b. distSq b = k) w"
  shows "ys = sortedWorld w"
proof -
  have key: "sorted (map (\<lambda>b. - distSq b) zs) = sorted_wrt (\<lambda>a b. distSq b \<le> distSq a) zs"
    for zs by (simp add: sorted_wrt_map)
  have flt: "(\<lambda>b. distSq k = distSq b) = (\<lambda>b. distSq b = distSq k)" for k
    by auto
  have 1: "sort_key (\<lambda>b. - distSq b) w = ys"
    by (rule properties_for_sort_key) (simp_all add: assms key flt)
  have 2: "sort_key (\<lambda>b. - distSq b) w = sortedWorld w"
    by (rule properties_for_sort_key)
      (simp_all add: sortedWorld_def mset_js_sort key flt descending_js_sort filter_key_js_sort)
  from 1 2 show ?thesis by simp
qed

text \<open>
  Claim C2: the rendered list holds the blocks of the world, each as often as the world
  does, in descending order of the squared distance \<open>x\<^sup>2 + y\<^sup>2 + z\<^sup>2\<close> from the
  origin, and for every distance the blocks of that distance appear in the order they have
  in the world.
\<close>

theorem sortedWorld_descending_stable:
  "mset (sortedWorld w) = mset w
   \<and> sorted_wrt (\<lambda>a b. distSq b \<le> distSq a) (sortedWorld w)
   \<and> filter (\<lambda>b. distSq b = k) (sortedWorld w) = filter (\<lambda>b. distSq b = k) w
   \<and> distSq c = (blk_x c)\<^sup>2 + (blk_y c)\<^sup>2 + (blk_z c)\<^sup>2"
proof -
  have "distSq c = (blk_x c)\<^sup>2 + (blk_y c)\<^sup>2 + (blk_z c)\<^sup>2"
    by (simp add: distSq_def power2_eq_square)
  then show ?thesis
    by (simp add: sortedWorld_def mset_js_sort descending_js_sort filter_key_js_sort)
qed

section \<open>Claims about the world operations\<close>

lemma foldr_max_Max: "foldr max ys (0::int) = Max (set (0 # ys))"
proof (induction ys)
  case Nil
  show ?case by simp
next
  case (Cons y ys)
  have "Max (set (0 # y # ys)) = Max (insert y (set (0 # ys)))"
    by (simp add: insert_commute)
  also have "\<dots> = max y (Max (set (0 # ys)))"
    by (rule Max_insert) simp_all
  finally show ?case using Cons.IH by simp
qed

lemma foldr_max_nonneg_column:
  assumes "y \<in> set ys" "0 \<le> y"
  shows "foldr max ys (0::int) = Max (set ys)"
proof -
  have ne: "set ys \<noteq> {}" using assms(1) by auto
  have "Max (set (0 # ys)) = max 0 (Max (set ys))"
    using ne by simp
  moreover have "y \<le> Max (set ys)" using assms(1) by simp
  ultimately show ?thesis using assms(2) by (simp add: foldr_max_Max)
qed

lemma removeBlockAt_count:
  "count (mset (removeBlockAt x y z w)) b =
     (if blk_x b = x \<and> blk_y b = y \<and> blk_z b = z then 0 else count (mset w) b)"
  by (simp add: removeBlockAt_def count_mset flip: filter_filter conj_assoc)

lemma removeBlockAt_subseq: "subseq (removeBlockAt x y z w) w"
  by (simp add: removeBlockAt_def)

lemma removeBlockAt_no_match:
  "\<forall>b \<in> set w. \<not> (blk_x b = x \<and> blk_y b = y \<and> blk_z b = z) \<Longrightarrow> removeBlockAt x y z w = w"
  by (simp add: removeBlockAt_def)

lemma destroyClick_no_target:
  assumes "\<forall>b \<in> set (world s). \<not> (blk_x b = 4 \<and> blk_z b = 4 \<and> 0 < blk_y b)"
  shows "destroyClick s = s"
proof -
  have "find (\<lambda>b. blk_x b = WORLD_SIZE div 2 \<and> blk_z b = WORLD_SIZE div 2 \<and> blk_y b > 0)
          (world s) = None"
    using assms by (simp add: find_None_iff WORLD_SIZE_def)
  then show ?thesis by (simp add: destroyClick_def)
qed

text \<open>
  Claim C6: \<open>removeBlockAt x y z\<close> removes every block at exactly \<open>(x, y, z)\<close> and keeps
  every other block, as often and in the order the world has it. When no block is at
  \<open>(x, y, z)\<close> the world, and with it the state after a left click, is unchanged. The
  destroy button leaves the state unchanged when no block of the column \<open>(4, 4)\<close> is above
  height 0.
\<close>

theorem removeBlockAt_exact:
  "count (mset (removeBlockAt x y z w)) b =
     (if blk_x b = x \<and> blk_y b = y \<and> blk_z b = z then 0 else count (mset w) b)
   \<and> subseq (removeBlockAt x y z w) w
   \<and> ((\<forall>c \<in> set w. \<not> (blk_x c = x \<and> blk_y c = y \<and> blk_z c = z))
        \<longrightarrow> removeBlockAt x y z w = w)
   \<and> handleBlockClick x y z False s = s\<lparr>world := removeBlockAt x y z (world s)\<rparr>
   \<and> ((\<forall>c \<in> set (world s). \<not> (blk_x c = x \<and> blk_y c = y \<and> blk_z c = z))
        \<longrightarrow> handleBlockClick x y z False s = s)
   \<and> ((\<forall>c \<in> set (world s). \<not> (blk_x c = 4 \<and> blk_z c = 4 \<and> 0 < blk_y c))
        \<longrightarrow> destroyClick s = s)"
proof -
  have click: "handleBlockClick x y z False s = s\<lparr>world := removeBlockAt x y z (world s)\<rparr>"
    by (simp add: handleBlockClick_def)
  have noop: "(\<forall>c \<in> set (world s). \<not> (blk_x c = x \<and> blk_y c = y \<and> blk_z c = z))
        \<longrightarrow> handleBlockClick x y z False s = s"
    by (simp add: click removeBlockAt_no_match)
  show ?thesis
    using removeBlockAt_count [of x y z w b] removeBlockAt_subseq [of x y z w]
      removeBlockAt_no_match [of w x y z] click noop destroyClick_no_target [of s]
    by blast
qed

text \<open>The theorem of C6 at a removal that matches nothing and at a destroy click on a world
  whose centre column holds only the ground block.\<close>

theorem removeBlockAt_exact_witness:
  "removeBlockAt 0 0 0 [\<lparr>blk_type = grass, blk_x = 2, blk_y = 0, blk_z = 3\<rparr>] =
       [\<lparr>blk_type = grass, blk_x = 2, blk_y = 0, blk_z = 3\<rparr>]
   \<and> destroyClick (initialState
        \<lparr>world := [\<lparr>blk_type = grass, blk_x = 4, blk_y = 0, blk_z = 4\<rparr>]\<rparr>) =
       initialState\<lparr>world := [\<lparr>blk_type = grass, blk_x = 4, blk_y = 0, blk_z = 4\<rparr>]\<rparr>"
proof -
  let ?b = "\<lparr>blk_type = grass, blk_x = 2, blk_y = 0, blk_z = 3\<rparr>"
  let ?s = "initialState\<lparr>world := [\<lparr>blk_type = grass, blk_x = 4, blk_y = 0, blk_z = 4\<rparr>]\<rparr>"
  have h1: "\<forall>c \<in> set [?b]. \<not> (blk_x c = 0 \<and> blk_y c = 0 \<and> blk_z c = 0)" by simp
  have h2: "\<forall>c \<in> set (world ?s). \<not> (blk_x c = 4 \<and> blk_z c = 4 \<and> 0 < blk_y c)" by simp
  show ?thesis
    using h1 h2 removeBlockAt_exact [of 0 0 0 "[?b]" ?b ?s]
    by blast
qed

text \<open>
  Claim C7: removing at \<open>(x, y, z)\<close> after adding a block of any material at \<open>(x, y, z)\<close>
  leaves no block at \<open>(x, y, z)\<close>; the result is the world with every block at that
  position removed. The same holds for the two clicks of the page: a right click on a
  block at \<open>(x, y, z)\<close> followed by a left click at \<open>(x, y + 1, z)\<close> leaves no block at
  \<open>(x, y + 1, z)\<close>. On the world that holds one block at \<open>(2, 0, 3)\<close>, removing at
  \<open>(2, 0, 3)\<close> gives the empty world.
\<close>

theorem remove_after_add:
  "removeBlockAt x y z (addBlock t x y z w) = removeBlockAt x y z w
   \<and> filter (\<lambda>b. blk_x b = x \<and> blk_y b = y \<and> blk_z b = z)
        (removeBlockAt x y z (addBlock t x y z w)) = []
   \<and> filter (\<lambda>b. blk_x b = x \<and> blk_y b = y + 1 \<and> blk_z b = z)
        (world (handleBlockClick x (y + 1) z False (handleBlockClick x y z True s))) = []
   \<and> removeBlockAt 2 0 3 [\<lparr>blk_type = t, blk_x = 2, blk_y = 0, blk_z = 3\<rparr>] = []
   \<and> world (handleBlockClick 2 0 3 False
        (initialState\<lparr>world := [\<lparr>blk_type = t, blk_x = 2, blk_y = 0, blk_z = 3\<rparr>]\<rparr>)) = []"
  by (simp add: removeBlockAt_def addBlock_def handleBlockClick_def)

section \<open>No block of type air\<close>

lemma fold_preserves:
  assumes "\<And>x acc. P acc \<Longrightarrow> P (f x acc)" and "P acc"
  shows "P (fold f xs acc)"
  using assms(2) by (induction xs arbitrary: acc) (simp_all add: assms(1))

lemma genCell_generated: "generated (fst acc) \<Longrightarrow> generated (fst (genCell rnd x z acc))"
  by (simp add: genCell_def generated_def Let_def)

lemma genTree_generated: "generated (fst acc) \<Longrightarrow> generated (fst (genTree rnd acc))"
  by (simp add: genTree_def generated_def Let_def)

lemma genGround_generated: "generated (fst (genGround rnd))"
proof -
  let ?P = "\<lambda>acc :: Block list \<times> nat. generated (fst acc)"
  have row: "?P acc \<Longrightarrow> ?P (fold (\<lambda>z. genCell rnd x z) zs acc)" for x zs acc
    by (rule fold_preserves [where P = ?P]) (simp_all add: genCell_generated)
  have "?P (fold (\<lambda>x. fold (\<lambda>z. genCell rnd x z) [0..WORLD_SIZE - 1]) [0..WORLD_SIZE - 1]
            ([], 0))"
  proof (rule fold_preserves [where P = ?P])
    show "?P ([], 0)" by (simp add: generated_def)
  next
    fix x and acc :: "Block list \<times> nat"
    assume "?P acc"
    then show "?P (fold (\<lambda>z. genCell rnd x z) [0..WORLD_SIZE - 1] acc)" by (rule row)
  qed
  then show ?thesis by (simp add: genGround_def)
qed

lemma initialWorld_generated: "generated (initialWorld rnd)"
proof -
  let ?P = "\<lambda>acc :: Block list \<times> nat. generated (fst acc)"
  have "?P (fold (\<lambda>i. genTree rnd) [0 ..< 3] (genGround rnd))"
    by (rule fold_preserves [where P = ?P]) (simp_all add: genTree_generated genGround_generated)
  then show ?thesis by (simp add: initialWorld_def)
qed

lemma generated_noAir: "generated w \<Longrightarrow> noAir w"
  by (auto simp: generated_def noAir_def list_all_iff)

lemma noAir_addBlock: "t \<noteq> air \<Longrightarrow> noAir w \<Longrightarrow> noAir (addBlock t x y z w)"
  by (simp add: noAir_def addBlock_def)

lemma noAir_removeBlockAt: "noAir w \<Longrightarrow> noAir (removeBlockAt x y z w)"
  by (simp add: noAir_def removeBlockAt_def list_all_iff)

lemma noAir_handleBlockClick:
  "noAir (world s) \<Longrightarrow> noAir (world (handleBlockClick x y z r s))"
  by (simp add: handleBlockClick_def noAir_addBlock noAir_removeBlockAt)

lemma noAir_destroyClick: "noAir (world s) \<Longrightarrow> noAir (world (destroyClick s))"
  by (simp add: destroyClick_def noAir_handleBlockClick split: option.split)

lemma noAir_buildClick: "noAir (world s) \<Longrightarrow> noAir (world (buildClick s))"
  by (simp add: buildClick_def Let_def noAir_handleBlockClick)

lemma noAir_step: "noAir (world s) \<Longrightarrow> noAir (world (step ev s))"
proof (cases ev)
  case (Mount rnd)
  then show ?thesis by (simp add: generated_noAir initialWorld_generated)
next
  case (PointerMove e)
  assume "noAir (world s)"
  with PointerMove show ?thesis by (simp add: handlePointerMove_def Let_def)
qed (simp_all add: handlePointerDown_def handlePointerUp_def noAir_handleBlockClick
      toggleInventory_def selectItem_def noAir_destroyClick noAir_buildClick)

lemma reachable_noAir: "reachable s \<Longrightarrow> noAir (world s)"
proof (induction rule: reachable.induct)
  case reachable_init
  show ?case by (simp add: initialState_def noAir_def)
next
  case (reachable_step s ev)
  then show ?case by (simp add: noAir_step)
qed

text \<open>The selection only ever comes from an inventory button, and the inventory has no
  entry for \<open>air\<close>: in every state the page can reach, a material is selected.\<close>

lemma step_selected:
  "selectedBlock (step ev s) = selectedBlock s
   \<or> (\<exists>item \<in> set inventory. selectedBlock (step ev s) = inv_type item)"
  by (cases ev)
    (auto simp: handlePointerDown_def handlePointerUp_def handlePointerMove_def Let_def
      handleBlockClick_def toggleInventory_def selectItem_def destroyClick_def buildClick_def
      split: option.split)

lemma reachable_selected: "reachable s \<Longrightarrow> selectedBlock s \<noteq> air"
proof (induction rule: reachable.induct)
  case reachable_init
  show ?case by (simp add: initialState_def)
next
  case (reachable_step s ev)
  then show ?case using step_selected [of ev s] by (auto simp: inventory_def)
qed

text \<open>
  Claim C9: the generated world holds only grass, dirt, wood and leaves blocks; a right
  click with \<open>air\<close> selected removes the blocks at the clicked position, and with any other
  selection appends one block of the selected type; a removal returns blocks of the world
  only; every event keeps a world without \<open>air\<close> blocks free of them; so no world the page
  can reach holds an \<open>air\<close> block.
\<close>

theorem no_air_invariant:
  "(\<forall>b \<in> set (initialWorld rnd). blk_type b \<in> {grass, dirt, wood, leaves})
   \<and> handleBlockClick x y z True (s\<lparr>selectedBlock := air\<rparr>) =
       s\<lparr>selectedBlock := air, world := removeBlockAt x y z (world s)\<rparr>
   \<and> (selectedBlock s \<noteq> air \<longrightarrow>
        world (handleBlockClick x y z True s) =
          world s @ [\<lparr>blk_type = selectedBlock s, blk_x = x, blk_y = y + 1, blk_z = z\<rparr>])
   \<and> set (removeBlockAt x y z w) \<subseteq> set w
   \<and> (noAir (world s) \<longrightarrow> noAir (world (step ev s)))
   \<and> (reachable s \<longrightarrow> (\<forall>b \<in> set (world s). blk_type b \<noteq> air))"
proof -
  have gen: "\<forall>b \<in> set (initialWorld rnd). blk_type b \<in> {grass, dirt, wood, leaves}"
    using initialWorld_generated [of rnd] by (simp add: generated_def)
  have airsel: "handleBlockClick x y z True (s\<lparr>selectedBlock := air\<rparr>) =
       s\<lparr>selectedBlock := air, world := removeBlockAt x y z (world s)\<rparr>"
    by (simp add: handleBlockClick_def)
  have add: "selectedBlock s \<noteq> air \<longrightarrow>
        world (handleBlockClick x y z True s) =
          world s @ [\<lparr>blk_type = selectedBlock s, blk_x = x, blk_y = y + 1, blk_z = z\<rparr>]"
    by (simp add: handleBlockClick_def addBlock_def)
  have rem: "set (removeBlockAt x y z w) \<subseteq> set w"
    by (auto simp: removeBlockAt_def)
  have inv: "reachable s \<longrightarrow> (\<forall>b \<in> set (world s). blk_type b \<noteq> air)"
    using reachable_noAir [of s] by (simp add: noAir_def list_all_iff)
  from gen airsel add rem noAir_step [of s ev] inv show ?thesis by blast
qed

text \<open>The theorem of C9 at the state after one right click at \<open>(0, 0, 0)\<close> on the initial
  state, where the world holds one grass block.\<close>

theorem no_air_invariant_witness:
  "reachable (step (BlockContextMenu 0 0 0) initialState)
   \<and> world (step (BlockContextMenu 0 0 0) initialState) =
       [\<lparr>blk_type = grass, blk_x = 0, blk_y = 1, blk_z = 0\<rparr>]
   \<and> noAir (world (step (BlockContextMenu 0 0 0) initialState))"
proof -
  have r: "reachable (step (BlockContextMenu 0 0 0) initialState)"
    by (rule reachable_step) (rule reachable_init)
  have w: "world (step (BlockContextMenu 0 0 0) initialState) =
       [\<lparr>blk_type = grass, blk_x = 0, blk_y = 1, blk_z = 0\<rparr>]"
    by (simp add: handleBlockClick_def addBlock_def initialState_def)
  from r w
    no_air_invariant [of "\<lambda>n. 0" 0 0 0 "step (BlockContextMenu 0 0 0) initialState" "[]" Build]
  show ?thesis by (simp add: noAir_def)
qed

section \<open>The stored world and the sorted copy\<close>

lemma h_render_result: "fst (h_render hs) = sortedWorld (storedWorld hs)"
  by (simp add: h_render_def array_spread_def array_new_def array_sort_def sortedWorld_def
      storedWorld_def)

lemma h_render_state:
  "worldRef (snd (h_render hs)) = worldRef hs
   \<and> hselected (snd (h_render hs)) = hselected hs
   \<and> fresh (heap (snd (h_render hs))) = Suc (fresh (heap hs))"
  by (simp add: h_render_def array_spread_def array_new_def array_sort_def)

lemma h_render_cells:
  "r < fresh (heap hs) \<Longrightarrow> cells (heap (snd (h_render hs))) r = cells (heap hs) r"
  by (simp add: h_render_def array_spread_def array_new_def array_sort_def)

lemma h_click_cells:
  "r < fresh (heap hs) \<Longrightarrow>
   cells (heap (h_handleBlockClick x y z c hs)) r = cells (heap hs) r"
  by (simp add: h_handleBlockClick_def array_spread_with_def array_filter_def array_new_def)

lemma h_click_state:
  "worldRef (h_handleBlockClick x y z c hs) = fresh (heap hs)
   \<and> hselected (h_handleBlockClick x y z c hs) = hselected hs
   \<and> fresh (heap (h_handleBlockClick x y z c hs)) = Suc (fresh (heap hs))"
  by (simp add: h_handleBlockClick_def array_spread_with_def array_filter_def array_new_def)

lemma h_click_stored:
  "storedWorld (h_handleBlockClick x y z c hs) =
     (if c \<and> hselected hs \<noteq> air
      then storedWorld hs @ [\<lparr>blk_type = hselected hs, blk_x = x, blk_y = y + 1, blk_z = z\<rparr>]
      else filter (\<lambda>b. \<not> (blk_x b = x \<and> blk_y b = y \<and> blk_z b = z)) (storedWorld hs))"
  by (simp add: h_handleBlockClick_def array_spread_with_def array_filter_def array_new_def
      storedWorld_def)

text \<open>The click on the store and the click on the state record compute the same world.\<close>

lemma h_click_refines:
  "world s = storedWorld hs \<Longrightarrow> selectedBlock s = hselected hs \<Longrightarrow>
   storedWorld (h_handleBlockClick x y z c hs) = world (handleBlockClick x y z c s)"
  by (simp add: h_click_stored handleBlockClick_def addBlock_def removeBlockAt_def)

lemma h_step_allocated: "allocated hs \<Longrightarrow> allocated (h_step ev hs)"
  by (cases ev) (simp_all add: allocated_def h_click_state h_render_state)

lemma h_step_fresh: "fresh (heap hs) \<le> fresh (heap (h_step ev hs))"
  by (cases ev) (simp_all add: h_click_state h_render_state)

lemma h_step_cells:
  "r < fresh (heap hs) \<Longrightarrow> cells (heap (h_step ev hs)) r = cells (heap hs) r"
  by (cases ev) (simp_all add: h_click_cells h_render_cells)

lemma h_step_stored:
  assumes "allocated hs"
  shows "storedWorld (h_step ev hs) =
           worldAfter [ev] (hselected hs) (storedWorld hs)
       \<and> hselected (h_step ev hs) = (case ev of HSelect t \<Rightarrow> t | _ \<Rightarrow> hselected hs)"
proof (cases ev)
  case (HClick x y z c)
  then show ?thesis by (simp add: h_click_stored h_click_state)
next
  case (HSelect t)
  then show ?thesis by (simp add: storedWorld_def)
next
  case HRender
  have "storedWorld (snd (h_render hs)) = storedWorld hs"
    using assms by (simp add: storedWorld_def h_render_state h_render_cells allocated_def)
  with HRender show ?thesis by (simp add: h_render_state)
qed

lemma h_run_allocated: "allocated hs \<Longrightarrow> allocated (h_run evs hs)"
  unfolding h_run_def by (induction evs arbitrary: hs) (simp_all add: h_step_allocated)

lemma h_run_cells:
  "r < fresh (heap hs) \<Longrightarrow> cells (heap (h_run evs hs)) r = cells (heap hs) r"
proof (induction evs arbitrary: hs)
  case Nil
  show ?case by (simp add: h_run_def)
next
  case (Cons ev evs)
  have "r < fresh (heap (h_step ev hs))"
    using Cons.prems h_step_fresh [of hs ev] by simp
  then have "cells (heap (h_run evs (h_step ev hs))) r = cells (heap (h_step ev hs)) r"
    by (rule Cons.IH)
  then show ?case using Cons.prems by (simp add: h_run_def h_step_cells)
qed

lemma h_run_stored:
  "allocated hs \<Longrightarrow>
   storedWorld (h_run evs hs) = worldAfter evs (hselected hs) (storedWorld hs)"
proof (induction evs arbitrary: hs)
  case Nil
  show ?case by (simp add: h_run_def)
next
  case (Cons ev evs)
  have "storedWorld (h_run evs (h_step ev hs)) =
        worldAfter evs (hselected (h_step ev hs)) (storedWorld (h_step ev hs))"
    using Cons.prems by (intro Cons.IH h_step_allocated)
  then show ?case
    using h_step_stored [OF Cons.prems, of ev]
    by (cases ev) (simp_all add: h_run_def)
qed

lemma worldAfter_without_renders:
  "worldAfter (filter (\<lambda>ev. \<not> isRender ev) evs) sel w = worldAfter evs sel w"
  by (induction evs sel w rule: worldAfter.induct) (simp_all add: isRender_def)

text \<open>
  Claim C10: a render returns the sorted copy and leaves the array of the world cell as it
  was. After any sequence of clicks, selections and renders, the stored world is the
  insertion-ordered sequence that the clicks alone build (a placing click appends at the
  end, a removing click filters), it is the same with every render left out, and no array
  that existed before the sequence has changed.
\<close>

theorem render_leaves_world:
  assumes "allocated hs"
  shows "fst (h_render hs) = sortedWorld (storedWorld hs)
       \<and> storedWorld (snd (h_render hs)) = storedWorld hs
       \<and> storedWorld (h_run evs hs) = worldAfter evs (hselected hs) (storedWorld hs)
       \<and> storedWorld (h_run evs hs) =
           storedWorld (h_run (filter (\<lambda>ev. \<not> isRender ev) evs) hs)
       \<and> (\<forall>r < fresh (heap hs). cells (heap (h_run evs hs)) r = cells (heap hs) r)"
proof -
  have one: "storedWorld (snd (h_render hs)) = storedWorld hs"
    using h_step_stored [OF assms, of HRender] by simp
  have all: "storedWorld (h_run evs' hs) = worldAfter evs' (hselected hs) (storedWorld hs)"
    for evs' using assms by (rule h_run_stored)
  have erase: "storedWorld (h_run evs hs) =
      storedWorld (h_run (filter (\<lambda>ev. \<not> isRender ev) evs) hs)"
    by (simp add: all worldAfter_without_renders)
  show ?thesis
    using h_render_result [of hs] one all [of evs] erase h_run_cells [of _ hs evs] by blast
qed

text \<open>The theorem of C10 on the initial store: three clicks and a selection with renders
  in between, and the sorted copy of a world of two blocks.\<close>

theorem render_leaves_world_witness:
  "allocated h_initial
   \<and> storedWorld (h_run [HClick 0 0 0 True, HRender, HSelect stone, HClick 1 0 0 True,
                         HRender, HClick 0 1 0 False, HRender] h_initial) =
       [\<lparr>blk_type = stone, blk_x = 1, blk_y = 1, blk_z = 0\<rparr>]
   \<and> fst (h_render (h_run [HClick 0 0 0 True, HClick 2 0 0 True] h_initial)) =
       [\<lparr>blk_type = grass, blk_x = 2, blk_y = 1, blk_z = 0\<rparr>,
        \<lparr>blk_type = grass, blk_x = 0, blk_y = 1, blk_z = 0\<rparr>]"
proof -
  have a: "allocated h_initial" by (simp add: allocated_def h_initial_def)
  have s: "storedWorld h_initial = []" "hselected h_initial = grass"
    by (simp_all add: storedWorld_def h_initial_def)
  have a2: "allocated (h_run [HClick 0 0 0 True, HClick 2 0 0 True] h_initial)"
    using a by (rule h_run_allocated)
  have "storedWorld (h_run [HClick 0 0 0 True, HRender, HSelect stone, HClick 1 0 0 True,
                         HRender, HClick 0 1 0 False, HRender] h_initial) =
       [\<lparr>blk_type = stone, blk_x = 1, blk_y = 1, blk_z = 0\<rparr>]"
    using render_leaves_world [OF a, of "[HClick 0 0 0 True, HRender, HSelect stone,
              HClick 1 0 0 True, HRender, HClick 0 1 0 False, HRender]"]
    by (simp add: s)
  moreover have "fst (h_render (h_run [HClick 0 0 0 True, HClick 2 0 0 True] h_initial)) =
       [\<lparr>blk_type = grass, blk_x = 2, blk_y = 1, blk_z = 0\<rparr>,
        \<lparr>blk_type = grass, blk_x = 0, blk_y = 1, blk_z = 0\<rparr>]"
    using render_leaves_world [OF a2, of "[]"]
      render_leaves_world [OF a, of "[HClick 0 0 0 True, HClick 2 0 0 True]"]
    by (simp add: s sortedWorld_def js_sort_def compareBlocks_def distSq_def)
  ultimately show ?thesis using a by blast
qed

section \<open>Rounding to doubles\<close>

text \<open>Rounding is symmetric, it is exact on zero, its relative error is at most
  \<open>2\<^sup>-\<^sup>5\<^sup>3\<close>, and on a number whose scaled magnitude lies in
  \<open>[2\<^sup>5\<^sup>2, 2\<^sup>5\<^sup>3)\<close> it is the scaled rounding to an integer, which evaluates
  concrete cases.\<close>

lemma rne_near: "\<bar>of_int (rne x) - x\<bar> \<le> 1 / 2"
  unfolding rne_def Let_def by (auto simp: abs_if) linarith+

lemma rne_of_int: "rne (of_int n) = n"
  by (simp add: rne_def)

lemma floor_minus_fraction:
  fixes x :: real
  assumes "x \<noteq> of_int \<lfloor>x\<rfloor>"
  shows "\<lfloor>- x\<rfloor> = - \<lfloor>x\<rfloor> - 1"
proof (rule floor_unique)
  have lt: "real_of_int \<lfloor>x\<rfloor> < x"
  proof (rule ccontr)
    assume "\<not> real_of_int \<lfloor>x\<rfloor> < x"
    then have "x \<le> real_of_int \<lfloor>x\<rfloor>" by (simp only: not_less)
    then have "x = real_of_int \<lfloor>x\<rfloor>"
      using of_int_floor_le [of x] by (rule antisym)
    with assms show False by (rule notE)
  qed
  have up: "x < real_of_int \<lfloor>x\<rfloor> + 1" by linarith
  have eq: "real_of_int (- \<lfloor>x\<rfloor> - 1) = - real_of_int \<lfloor>x\<rfloor> - 1" by simp
  show "of_int (- \<lfloor>x\<rfloor> - 1) \<le> - x" unfolding eq using up by linarith
  show "- x < of_int (- \<lfloor>x\<rfloor> - 1) + 1" unfolding eq using lt by linarith
qed

lemma rne_minus: "rne (- x) = - rne x"
proof (cases "x = of_int \<lfloor>x\<rfloor>")
  case True
  then have "rne x = \<lfloor>x\<rfloor>" by (metis rne_of_int)
  moreover have "- x = of_int (- \<lfloor>x\<rfloor>)" using True by simp
  then have "rne (- x) = - \<lfloor>x\<rfloor>" by (metis rne_of_int)
  ultimately show ?thesis by simp
next
  case False
  define f where "f = \<lfloor>x\<rfloor>"
  define d where "d = x - of_int f"
  have fl: "\<lfloor>- x\<rfloor> = - f - 1"
    using False by (simp add: floor_minus_fraction f_def)
  have d: "0 < d" "d < 1" using False unfolding d_def f_def by linarith+
  have dm: "- x - of_int (- f - 1) = 1 - d" by (simp add: d_def)
  have ev: "even (- f - 1) \<longleftrightarrow> \<not> even f" by simp
  show ?thesis
    unfolding rne_def Let_def fl f_def [symmetric] dm d_def [symmetric] ev
    using d by auto
qed

lemma ulp_pos: "0 < ulp v"
  by (simp add: ulp_def)

lemma ulp_minus: "ulp (- v) = ulp v"
  by (simp add: ulp_def)

lemma toDouble_zero: "toDouble 0 = 0"
  by (simp add: toDouble_def)

lemma toDouble_minus: "toDouble (- v) = - toDouble v"
  by (simp add: toDouble_def ulp_minus rne_minus)

lemma ulp_below:
  assumes "v \<noteq> 0"
  shows "ulp v * 2 ^ 52 \<le> \<bar>v\<bar>"
proof -
  define e where "e = \<lfloor>log 2 \<bar>v\<bar>\<rfloor>"
  have pos: "0 < \<bar>v\<bar>" using assms by simp
  have lo: "2 powr of_int e \<le> \<bar>v\<bar>"
    using pos by (simp add: e_def flip: le_log_iff)
  have u: "ulp v = 2 powr of_int e / 2 ^ 52"
    by (simp add: ulp_def e_def powr_diff)
  from lo u show ?thesis by simp
qed

lemma toDouble_error: "\<bar>toDouble v - v\<bar> \<le> \<bar>v\<bar> / 2 ^ 53"
proof (cases "v = 0")
  case True
  then show ?thesis by (simp add: toDouble_def)
next
  case False
  have u: "0 < ulp v" by (rule ulp_pos)
  have "\<bar>of_int (rne (v / ulp v)) - v / ulp v\<bar> \<le> 1 / 2" by (rule rne_near)
  then have "\<bar>of_int (rne (v / ulp v)) - v / ulp v\<bar> * ulp v \<le> 1 / 2 * ulp v"
    using u by (intro mult_right_mono) simp_all
  moreover have "\<bar>of_int (rne (v / ulp v)) - v / ulp v\<bar> * ulp v =
      \<bar>of_int (rne (v / ulp v)) * ulp v - v\<bar>"
  proof -
    have "(of_int (rne (v / ulp v)) - v / ulp v) * ulp v = of_int (rne (v / ulp v)) * ulp v - v"
      using u by (simp add: left_diff_distrib)
    then have "\<bar>of_int (rne (v / ulp v)) * ulp v - v\<bar> =
        \<bar>of_int (rne (v / ulp v)) - v / ulp v\<bar> * \<bar>ulp v\<bar>"
      by (simp only: abs_mult [symmetric])
    then show ?thesis using u by simp
  qed
  ultimately have "\<bar>toDouble v - v\<bar> \<le> ulp v / 2"
    using False by (simp add: toDouble_def)
  moreover have "ulp v / 2 \<le> \<bar>v\<bar> / 2 ^ 53"
    using ulp_below [OF False] by (simp add: field_simps)
  ultimately show ?thesis by linarith
qed

lemma ulp_scaled:
  assumes "2 ^ 52 \<le> \<bar>v\<bar> * 2 ^ j" and "\<bar>v\<bar> * 2 ^ j < 2 ^ 53"
  shows "ulp v = 1 / 2 ^ j"
proof -
  have pos: "0 < \<bar>v\<bar>"
  proof (rule ccontr)
    assume "\<not> 0 < \<bar>v\<bar>"
    then have "\<bar>v\<bar> * 2 ^ j = 0" by simp
    with assms(1) show False by simp
  qed
  have lo: "2 powr (52 - real j) \<le> \<bar>v\<bar>"
  proof -
    have "2 powr (52 - real j) = 2 ^ 52 / 2 ^ j"
      by (simp add: powr_diff powr_realpow)
    also have "\<dots> \<le> \<bar>v\<bar>" using assms(1) by (simp add: field_simps)
    finally show ?thesis .
  qed
  have hi: "\<bar>v\<bar> < 2 powr (53 - real j)"
  proof -
    have "\<bar>v\<bar> < 2 ^ 53 / 2 ^ j" using assms(2) by (simp add: field_simps)
    also have "\<dots> = 2 powr (53 - real j)"
      by (simp add: powr_diff powr_realpow)
    finally show ?thesis .
  qed
  have "\<lfloor>log 2 \<bar>v\<bar>\<rfloor> = 52 - int j"
  proof (rule floor_unique)
    show "of_int (52 - int j) \<le> log 2 \<bar>v\<bar>"
      using lo pos by (simp add: le_log_iff)
    show "log 2 \<bar>v\<bar> < of_int (52 - int j) + 1"
      using hi pos by (subst log_less_iff) (simp_all add: algebra_simps)
  qed
  then have "ulp v = 2 powr (- real j)"
    by (simp add: ulp_def)
  then show ?thesis by (simp add: powr_minus powr_realpow inverse_eq_divide)
qed

lemma toDouble_scaled:
  assumes "2 ^ 52 \<le> \<bar>v\<bar> * 2 ^ j" and "\<bar>v\<bar> * 2 ^ j < 2 ^ 53"
  shows "toDouble v = of_int (rne (v * 2 ^ j)) / 2 ^ j"
proof -
  have "v \<noteq> 0" using assms(1) by auto
  then show ?thesis by (simp add: toDouble_def ulp_scaled [OF assms])
qed

lemma three_tenths: "toDouble (3 / 10) = 5404319552844595 / 2 ^ 54"
  by (subst toDouble_scaled [where j = 54]) (simp_all add: rne_def)

lemma thirty: "toDouble (100 * toDouble (3 / 10)) = 30"
  unfolding three_tenths
  by (subst toDouble_scaled [where j = 48]) (simp_all add: rne_def)

lemma d75: "toDouble 75 = 75"
  by (subst toDouble_scaled [where j = 46]) (simp_all add: rne_def)

lemma d30: "toDouble 30 = 30"
  by (subst toDouble_scaled [where j = 48]) (simp_all add: rne_def)

lemma d100: "toDouble 100 = 100"
  by (subst toDouble_scaled [where j = 46]) (simp_all add: rne_def)

lemma d380: "toDouble 380 = 380"
  by (subst toDouble_scaled [where j = 44]) (simp_all add: rne_def)

lemma dragTarget_error:
  "\<bar>dragTarget v d - (v + d * (3 / 10))\<bar> \<le> (\<bar>v\<bar> + \<bar>d\<bar>) / 2 ^ 53"
proof -
  define k where "k = toDouble (3 / 10)"
  define p where "p = toDouble (d * k)"
  define eps :: real where "eps = 1 / 2 ^ 53"
  have eps: "0 < eps" "eps \<le> 1 / 100" by (simp_all add: eps_def)
  have k: "\<bar>k - 3 / 10\<bar> \<le> 3 / 10 * eps"
    using toDouble_error [of "3 / 10"] by (simp add: k_def eps_def)
  then have kabs: "\<bar>k\<bar> \<le> 31 / 100" using eps by linarith
  have dk: "\<bar>d * k - d * (3 / 10)\<bar> \<le> \<bar>d\<bar> * (3 / 10 * eps)"
  proof -
    have "d * k - d * (3 / 10) = d * (k - 3 / 10)"
      by (simp add: right_diff_distrib)
    then have "\<bar>d * k - d * (3 / 10)\<bar> = \<bar>d\<bar> * \<bar>k - 3 / 10\<bar>"
      by (simp only: abs_mult)
    also have "\<dots> \<le> \<bar>d\<bar> * (3 / 10 * eps)"
      using k by (intro mult_left_mono) simp_all
    finally show ?thesis .
  qed
  have dkabs: "\<bar>d * k\<bar> \<le> \<bar>d\<bar> * (31 / 100)"
  proof -
    have "\<bar>d * k\<bar> = \<bar>d\<bar> * \<bar>k\<bar>" by (simp only: abs_mult)
    also have "\<dots> \<le> \<bar>d\<bar> * (31 / 100)"
      using kabs by (intro mult_left_mono) simp_all
    finally show ?thesis .
  qed
  have p: "\<bar>p - d * k\<bar> \<le> \<bar>d\<bar> * (31 / 100) * eps"
  proof -
    have "\<bar>p - d * k\<bar> \<le> \<bar>d * k\<bar> * eps"
      using toDouble_error [of "d * k"] by (simp add: p_def eps_def)
    also have "\<dots> \<le> \<bar>d\<bar> * (31 / 100) * eps"
      using dkabs eps(1) by (intro mult_right_mono) simp_all
    finally show ?thesis .
  qed
  have pabs: "\<bar>p\<bar> \<le> \<bar>d\<bar> * (32 / 100)"
  proof -
    have "\<bar>p\<bar> \<le> \<bar>p - d * k\<bar> + \<bar>d * k\<bar>" by simp
    also have "\<dots> \<le> \<bar>d\<bar> * (31 / 100) * eps + \<bar>d\<bar> * (31 / 100)"
      using p dkabs by linarith
    also have "\<dots> \<le> \<bar>d\<bar> * (31 / 100) * (1 / 100) + \<bar>d\<bar> * (31 / 100)"
      using eps(2) by (intro add_right_mono mult_left_mono) simp_all
    also have "\<dots> \<le> \<bar>d\<bar> * (32 / 100)" by simp
    finally show ?thesis .
  qed
  have t: "\<bar>toDouble (v + p) - (v + p)\<bar> \<le> (\<bar>v\<bar> + \<bar>d\<bar> * (32 / 100)) * eps"
  proof -
    have "\<bar>toDouble (v + p) - (v + p)\<bar> \<le> \<bar>v + p\<bar> * eps"
      using toDouble_error [of "v + p"] by (simp add: eps_def)
    also have "\<dots> \<le> (\<bar>v\<bar> + \<bar>d\<bar> * (32 / 100)) * eps"
      using pabs eps(1) by (intro mult_right_mono) linarith+
    finally show ?thesis .
  qed
  have "dragTarget v d = toDouble (v + p)"
    by (simp add: dragTarget_def fadd_def fmul_def p_def k_def)
  moreover have "\<bar>toDouble (v + p) - (v + d * (3 / 10))\<bar> \<le>
      \<bar>toDouble (v + p) - (v + p)\<bar> + \<bar>p - d * k\<bar> + \<bar>d * k - d * (3 / 10)\<bar>"
    by linarith
  moreover have "(\<bar>v\<bar> + \<bar>d\<bar> * (32 / 100)) * eps + \<bar>d\<bar> * (31 / 100) * eps
      + \<bar>d\<bar> * (3 / 10 * eps) \<le> (\<bar>v\<bar> + \<bar>d\<bar>) * eps"
  proof -
    have "(\<bar>v\<bar> + \<bar>d\<bar> * (32 / 100)) * eps + \<bar>d\<bar> * (31 / 100) * eps
      + \<bar>d\<bar> * (3 / 10 * eps) = (\<bar>v\<bar> + \<bar>d\<bar> * (93 / 100)) * eps"
      by (simp add: algebra_simps)
    also have "\<dots> \<le> (\<bar>v\<bar> + \<bar>d\<bar>) * eps"
      using eps(1) by (intro mult_right_mono) simp_all
    finally show ?thesis .
  qed
  ultimately have "\<bar>dragTarget v d - (v + d * (3 / 10))\<bar> \<le> (\<bar>v\<bar> + \<bar>d\<bar>) * eps"
    using t p dk by linarith
  then show ?thesis by (simp add: eps_def)
qed

section \<open>The drag in double arithmetic\<close>

lemma fsub_error: "\<bar>fsub a b - (a - b)\<bar> \<le> \<bar>a - b\<bar> / 2 ^ 53"
  unfolding fsub_def by (rule toDouble_error)

lemma handlePointerMoveD_dragging:
  "isDragging s \<Longrightarrow>
   cameraRotation (handlePointerMoveD e s) =
     dragUpdateD (deltaX e s) (deltaY e s) (cameraRotation s)"
  by (simp add: handlePointerMoveD_def)

lemma js_rem_abs_less:
  assumes "0 < b"
  shows "\<bar>js_rem a b\<bar> < b"
proof (cases "0 \<le> a")
  case True
  then show ?thesis using js_rem_nonneg [OF True assms] by linarith
next
  case False
  then have "a \<le> 0" by simp
  then show ?thesis using js_rem_nonpos [OF _ assms, of a] by linarith
qed

lemma dragTarget_45_100: "dragTarget 45 100 = 75"
  by (simp add: dragTarget_def fadd_def fmul_def thirty d75)

lemma dragTarget_350_100: "dragTarget 350 100 = 380"
  by (simp add: dragTarget_def fadd_def fmul_def thirty d380)

lemma dragTarget_30_0: "dragTarget 30 0 = 30"
  by (simp add: dragTarget_def fadd_def fmul_def toDouble_zero d30)

lemma dragTarget_0_1: "dragTarget 0 1 = 5404319552844595 / 2 ^ 54"
proof -
  define k :: real where "k = 5404319552844595 / 2 ^ 54"
  have idem: "toDouble k = k"
    unfolding k_def by (subst toDouble_scaled [where j = 54]) (simp_all add: rne_def)
  have "dragTarget 0 1 = toDouble (toDouble (toDouble (3 / 10)))"
    by (simp add: dragTarget_def fadd_def fmul_def)
  also have "\<dots> = toDouble (toDouble k)"
    by (simp only: three_tenths k_def)
  also have "\<dots> = k"
    by (simp only: idem)
  finally show ?thesis by (simp only: k_def)
qed

lemma deltas_100_0:
  "fsub 100 0 = 100" "fsub 0 0 = 0"
  by (simp_all add: fsub_def d100 toDouble_zero)

lemma scenario_drag:
  "cameraRotation (handlePointerMoveD \<lparr>clientX = 100, clientY = 0\<rparr>
      (handlePointerDown \<lparr>clientX = 0, clientY = 0\<rparr> initialState)) =
     \<lparr>rot_x = 30, rot_y = 75\<rparr>"
  by (simp add: handlePointerMoveD_def handlePointerDown_def initialState_def dragUpdateD_def
      deltaX_def deltaY_def deltas_100_0 dragTarget_45_100 dragTarget_30_0 js_rem_def
      js_trunc_def)

lemma scenario_wrap:
  "cameraRotation (handlePointerMoveD \<lparr>clientX = 100, clientY = 0\<rparr>
      (handlePointerDown \<lparr>clientX = 0, clientY = 0\<rparr>
         (initialState\<lparr>cameraRotation := \<lparr>rot_x = 30, rot_y = 350\<rparr>\<rparr>))) =
     \<lparr>rot_x = 30, rot_y = 20\<rparr>"
  by (simp add: handlePointerMoveD_def handlePointerDown_def initialState_def dragUpdateD_def
      deltaX_def deltaY_def deltas_100_0 dragTarget_350_100 dragTarget_30_0 js_rem_def
      js_trunc_def)

text \<open>
  Claim C8, in the arithmetic of the engine. While a drag is active, a pointer move takes
  the deltas \<open>dx\<close>, \<open>dy\<close> from the last sampled position (each the rounded difference of
  two coordinates) and computes \<open>x + dy * 0.3\<close> and \<open>y + dx * 0.3\<close> in doubles; each of the
  two differs from the exact sum with \<open>k = 3/10\<close> by at most \<open>(|v| + |d|) / 2\<^sup>5\<^sup>3\<close>
  (the sensitivity itself is the double \<open>5404319552844595 / 2\<^sup>5\<^sup>4\<close>, the result of a move
  by one pixel from angle 0). The
  new x is that value clamped to \<open>[-90, 90]\<close>. The new y is that value wrapped: it
  differs from it by a multiple of 360, its magnitude is below 360 and it has the sign of
  the value. The sampled position becomes the pointer position. From \<open>{x: 30, y: 45}\<close>
  and the delta \<open>(100, 0)\<close> the result is exactly \<open>{x: 30, y: 75}\<close>; from y = 350 the same
  delta wraps to 20.
\<close>

theorem drag_update_double:
  assumes "isDragging s"
  shows "rot_x (cameraRotation (handlePointerMoveD e s)) =
           (if dragTarget (rot_x (cameraRotation s)) (deltaY e s) < - 90 then - 90
            else if 90 < dragTarget (rot_x (cameraRotation s)) (deltaY e s) then 90
            else dragTarget (rot_x (cameraRotation s)) (deltaY e s))
       \<and> (\<exists>n::int. rot_y (cameraRotation (handlePointerMoveD e s)) =
              dragTarget (rot_y (cameraRotation s)) (deltaX e s) - 360 * of_int n)
       \<and> \<bar>rot_y (cameraRotation (handlePointerMoveD e s))\<bar> < 360
       \<and> (0 \<le> dragTarget (rot_y (cameraRotation s)) (deltaX e s)
            \<longrightarrow> 0 \<le> rot_y (cameraRotation (handlePointerMoveD e s)))
       \<and> (dragTarget (rot_y (cameraRotation s)) (deltaX e s) \<le> 0
            \<longrightarrow> rot_y (cameraRotation (handlePointerMoveD e s)) \<le> 0)
       \<and> \<bar>dragTarget v d - (v + d * (3 / 10))\<bar> \<le> (\<bar>v\<bar> + \<bar>d\<bar>) / 2 ^ 53
       \<and> dragTarget 0 1 = 5404319552844595 / 2 ^ 54
       \<and> \<bar>deltaX e s - (clientX e - pt_x (dragStart s))\<bar>
            \<le> \<bar>clientX e - pt_x (dragStart s)\<bar> / 2 ^ 53
       \<and> \<bar>deltaY e s - (clientY e - pt_y (dragStart s))\<bar>
            \<le> \<bar>clientY e - pt_y (dragStart s)\<bar> / 2 ^ 53
       \<and> dragStart (handlePointerMoveD e s) = \<lparr>pt_x = clientX e, pt_y = clientY e\<rparr>
       \<and> cameraRotation (handlePointerMoveD \<lparr>clientX = 100, clientY = 0\<rparr>
            (handlePointerDown \<lparr>clientX = 0, clientY = 0\<rparr> initialState)) =
           \<lparr>rot_x = 30, rot_y = 75\<rparr>
       \<and> cameraRotation (handlePointerMoveD \<lparr>clientX = 100, clientY = 0\<rparr>
            (handlePointerDown \<lparr>clientX = 0, clientY = 0\<rparr>
               (initialState\<lparr>cameraRotation := \<lparr>rot_x = 30, rot_y = 350\<rparr>\<rparr>))) =
           \<lparr>rot_x = 30, rot_y = 20\<rparr>"
proof -
  define tx where "tx = dragTarget (rot_x (cameraRotation s)) (deltaY e s)"
  define ty where "ty = dragTarget (rot_y (cameraRotation s)) (deltaX e s)"
  have rot: "cameraRotation (handlePointerMoveD e s) =
      \<lparr>rot_x = max (- 90) (min 90 tx), rot_y = js_rem ty 360\<rparr>"
    using assms by (simp add: handlePointerMoveD_dragging dragUpdateD_def tx_def ty_def)
  have x: "max (- 90) (min 90 tx) = (if tx < - 90 then - 90 else if 90 < tx then 90 else tx)"
    by auto
  have mult: "\<exists>n::int. js_rem ty 360 = ty - 360 * of_int n"
    by (rule js_rem_multiple)
  have bound: "\<bar>js_rem ty 360\<bar> < 360"
    by (rule js_rem_abs_less) simp
  have pos: "0 \<le> ty \<longrightarrow> 0 \<le> js_rem ty 360"
    using js_rem_nonneg [of ty 360] by simp
  have neg: "ty \<le> 0 \<longrightarrow> js_rem ty 360 \<le> 0"
    using js_rem_nonpos [of ty 360] by simp
  have start: "dragStart (handlePointerMoveD e s) = \<lparr>pt_x = clientX e, pt_y = clientY e\<rparr>"
    using assms by (simp add: handlePointerMoveD_def)
  have dx: "\<bar>deltaX e s - (clientX e - pt_x (dragStart s))\<bar>
            \<le> \<bar>clientX e - pt_x (dragStart s)\<bar> / 2 ^ 53"
    unfolding deltaX_def by (rule fsub_error)
  have dy: "\<bar>deltaY e s - (clientY e - pt_y (dragStart s))\<bar>
            \<le> \<bar>clientY e - pt_y (dragStart s)\<bar> / 2 ^ 53"
    unfolding deltaY_def by (rule fsub_error)
  show ?thesis
    unfolding rot tx_def [symmetric] ty_def [symmetric]
    using x mult bound pos neg start dx dy dragTarget_error [of v d] dragTarget_0_1
      scenario_drag scenario_wrap
    by simp
qed

text \<open>The theorem of C8 at the scenario: initial camera, pointer down at the origin, move to
  \<open>(100, 0)\<close>.\<close>

theorem drag_update_double_witness:
  "isDragging (handlePointerDown \<lparr>clientX = 0, clientY = 0\<rparr> initialState)
   \<and> cameraRotation (handlePointerMoveD \<lparr>clientX = 100, clientY = 0\<rparr>
        (handlePointerDown \<lparr>clientX = 0, clientY = 0\<rparr> initialState)) =
       \<lparr>rot_x = 30, rot_y = 75\<rparr>
   \<and> \<bar>rot_y (cameraRotation (handlePointerMoveD \<lparr>clientX = 100, clientY = 0\<rparr>
        (handlePointerDown \<lparr>clientX = 0, clientY = 0\<rparr> initialState)))\<bar> < 360"
proof -
  have d: "isDragging (handlePointerDown \<lparr>clientX = 0, clientY = 0\<rparr> initialState)"
    by (simp add: handlePointerDown_def)
  from d drag_update_double [OF d, of "\<lparr>clientX = 100, clientY = 0\<rparr>" 0 0]
  show ?thesis by blast
qed

section \<open>Claims about the projection\<close>

lemma fmul_minus_left: "fmul (- a) b = - fmul a b"
  by (simp add: fmul_def toDouble_minus)

lemma fadd_minus_left: "fadd (- a) b = fsub b a"
  by (simp add: fadd_def fsub_def)

lemma fadd_commute: "fadd a b = fadd b a"
  by (simp add: fadd_def add.commute)

lemma get3DPosition_spec:
  "get3DPosition mcos msin rot x y z =
     \<lparr>pos_left = fst (spec_screen mcos msin rot x y z),
      pos_top = snd (spec_screen mcos msin rot x y z),
      pos_zIndex = \<lfloor>fsub 1000 (spec_depth mcos msin rot x y z)\<rfloor>\<rparr>"
  by (simp add: get3DPosition_def spec_screen_def spec_depth_def centred_def rotate2_def
      radians_def Let_def fmul_minus_left fadd_minus_left fadd_commute)

text \<open>
  Claim C1, as the code has it, in the arithmetic of the engine and for whatever
  \<open>Math.cos\<close> and \<open>Math.sin\<close> the engine has. The screen position is the one the claim
  describes: the centred position \<open>(x*S - C, -y*S, z*S - C)\<close>, a rotation by the y angle in
  the x/z plane, a rotation by the x angle in the resulting y/z plane, and the offset 300
  on both screen axes. The paint-order key is not the constant minus the depth but its
  floor, \<open>Math.floor(1000 - z2)\<close>: the greatest integer that is at most the double
  \<open>1000 - z2\<close>, which is within a relative \<open>2\<^sup>-\<^sup>5\<^sup>3\<close> of 1000 minus the depth.
\<close>

theorem get3DPosition_projection:
  "get3DPosition mcos msin rot x y z =
     \<lparr>pos_left = fst (spec_screen mcos msin rot x y z),
      pos_top = snd (spec_screen mcos msin rot x y z),
      pos_zIndex = \<lfloor>fsub 1000 (spec_depth mcos msin rot x y z)\<rfloor>\<rparr>
   \<and> real_of_int (pos_zIndex (get3DPosition mcos msin rot x y z))
        \<le> fsub 1000 (spec_depth mcos msin rot x y z)
   \<and> fsub 1000 (spec_depth mcos msin rot x y z)
        < real_of_int (pos_zIndex (get3DPosition mcos msin rot x y z)) + 1
   \<and> \<bar>fsub 1000 (spec_depth mcos msin rot x y z) - (1000 - spec_depth mcos msin rot x y z)\<bar>
        \<le> \<bar>1000 - spec_depth mcos msin rot x y z\<bar> / 2 ^ 53"
proof -
  define d where "d = spec_depth mcos msin rot x y z"
  have eq: "get3DPosition mcos msin rot x y z =
     \<lparr>pos_left = fst (spec_screen mcos msin rot x y z),
      pos_top = snd (spec_screen mcos msin rot x y z),
      pos_zIndex = \<lfloor>fsub 1000 d\<rfloor>\<rparr>"
    unfolding d_def by (rule get3DPosition_spec)
  have lo: "real_of_int \<lfloor>fsub 1000 d\<rfloor> \<le> fsub 1000 d"
    by (rule of_int_floor_le)
  have hi: "fsub 1000 d < real_of_int \<lfloor>fsub 1000 d\<rfloor> + 1"
    by linarith
  have err: "\<bar>fsub 1000 d - (1000 - d)\<bar> \<le> \<bar>1000 - d\<bar> / 2 ^ 53"
    by (rule fsub_error)
  show ?thesis
    unfolding d_def [symmetric] eq using lo hi err by simp
qed

lemma toDouble_near: "\<bar>v\<bar> \<le> M \<Longrightarrow> \<bar>toDouble v - v\<bar> \<le> M / 2 ^ 53"
proof -
  assume "\<bar>v\<bar> \<le> M"
  then have "\<bar>v\<bar> / 2 ^ 53 \<le> M / 2 ^ 53" by (simp add: divide_right_mono)
  with toDouble_error [of v] show ?thesis by linarith
qed

lemma toDouble_coarse: "\<bar>v\<bar> \<le> 2000 \<Longrightarrow> \<bar>toDouble v - v\<bar> \<le> 1 / 1000000"
proof -
  assume "\<bar>v\<bar> \<le> 2000"
  then have "\<bar>toDouble v - v\<bar> \<le> 2000 / 2 ^ 53" by (rule toDouble_near)
  then show ?thesis by simp
qed

lemma cos_lipschitz: "\<bar>cos a - cos b\<bar> \<le> \<bar>a - b\<bar>" for a b :: real
proof -
  define u where "u = \<bar>sin ((a + b) / 2)\<bar>"
  define w where "w = \<bar>sin ((b - a) / 2)\<bar>"
  have u: "0 \<le> u" "u \<le> 1" by (simp_all add: u_def)
  have w: "0 \<le> w" "w \<le> \<bar>b - a\<bar> / 2"
    using abs_sin_x_le_abs_x [of "(b - a) / 2"] by (simp_all add: w_def)
  have "\<bar>cos a - cos b\<bar> = 2 * (u * w)"
    by (simp add: cos_diff_cos abs_mult u_def w_def)
  also have "u * w \<le> 1 * (\<bar>b - a\<bar> / 2)"
    using u w by (intro mult_mono) simp_all
  finally show ?thesis by simp
qed

lemma d320: "toDouble 320 = 320"
  by (subst toDouble_scaled [where j = 44]) (simp_all add: rne_def)

lemma d160: "toDouble 160 = 160"
  by (subst toDouble_scaled [where j = 45]) (simp_all add: rne_def)

lemma d200: "toDouble 200 = 200"
  by (subst toDouble_scaled [where j = 45]) (simp_all add: rne_def)

lemma d40: "toDouble 40 = 40"
  by (subst toDouble_scaled [where j = 47]) (simp_all add: rne_def)

lemma centred_4_0_5: "centred 4 0 5 = (0, 0, 40)"
  by (simp add: centred_def WORLD_SIZE_def BLOCK_SIZE_def fmul_def fdiv_def fsub_def
      d320 d160 d200 d40 toDouble_zero)

lemma radians_0: "radians 0 = 0"
  by (simp add: radians_def fmul_def fdiv_def toDouble_zero)

lemma radians_30: "\<bar>radians 30 - pi / 6\<bar> \<le> 1 / 1000"
proof -
  define v1 where "v1 = 30 * Math_PI"
  define w1 where "w1 = toDouble v1"
  define v2 where "v2 = w1 / 180"
  have p: "0 < pi" "pi < 4" using pi_gt_zero pi_less_4 by simp_all
  have "\<bar>Math_PI - pi\<bar> \<le> 1 / 1000000"
    unfolding Math_PI_def using p by (intro toDouble_coarse) simp
  then have a: "\<bar>v1 - 30 * pi\<bar> \<le> 30 / 1000000" unfolding v1_def by linarith
  then have "\<bar>v1\<bar> \<le> 2000" using p by linarith
  then have "\<bar>w1 - v1\<bar> \<le> 1 / 1000000" unfolding w1_def by (rule toDouble_coarse)
  with a have b: "\<bar>w1 - 30 * pi\<bar> \<le> 31 / 1000000" by linarith
  then have c: "\<bar>v2 - pi / 6\<bar> \<le> 1 / 1000000" unfolding v2_def by linarith
  then have "\<bar>v2\<bar> \<le> 2000" using p by linarith
  then have "\<bar>toDouble v2 - v2\<bar> \<le> 1 / 1000000" by (rule toDouble_coarse)
  with c have "\<bar>toDouble v2 - pi / 6\<bar> \<le> 1 / 1000" by linarith
  moreover have "radians 30 = toDouble v2"
    by (simp add: radians_def fmul_def fdiv_def v2_def w1_def v1_def)
  ultimately show ?thesis by simp
qed

lemma half_sqrt3_bounds: "866 / 1000 < cos (pi / 6) \<and> cos (pi / 6) < 867 / 1000"
proof -
  have "1732 / 1000 < sqrt 3"
    by (rule real_less_rsqrt) (simp add: power2_eq_square)
  moreover have "sqrt 3 < 1733 / 1000"
    by (rule real_less_lsqrt) (simp_all add: power2_eq_square)
  ultimately show ?thesis by (simp add: cos_30)
qed

text \<open>
  The camera at x = 0, y = 30 degrees and the block at \<open>(4, 0, 5)\<close>, a grass tile of
  every generated world. For every engine whose \<open>Math.cos\<close> is within \<open>1/1000\<close> of the
  cosine, the depth lies between 34.4 and 34.9 and the key is 965.
\<close>

lemma depth_at_yaw_30:
  assumes c: "\<And>t. \<bar>mcos t - cos t\<bar> \<le> 1 / 1000"
  shows "344 / 10 < spec_depth mcos msin \<lparr>rot_x = 0, rot_y = 30\<rparr> 4 0 5
       \<and> spec_depth mcos msin \<lparr>rot_x = 0, rot_y = 30\<rparr> 4 0 5 < 349 / 10"
proof -
  define cY where "cY = mcos (radians 30)"
  define cX where "cX = mcos 0"
  define a1 where "a1 = toDouble (40 * cY)"
  define z1 where "z1 = toDouble a1"
  define a2 where "a2 = toDouble (z1 * cX)"
  define z2 where "z2 = toDouble a2"
  have depth: "spec_depth mcos msin \<lparr>rot_x = 0, rot_y = 30\<rparr> 4 0 5 = z2"
    by (simp add: spec_depth_def centred_4_0_5 rotate2_def radians_0 Let_def fmul_def fsub_def
        fadd_def toDouble_zero z2_def a2_def z1_def a1_def cY_def cX_def)
  have "\<bar>cos (radians 30) - cos (pi / 6)\<bar> \<le> 1 / 1000"
    using cos_lipschitz [of "radians 30" "pi / 6"] radians_30 by linarith
  with c [of "radians 30"] half_sqrt3_bounds
  have cY: "864 / 1000 < cY" "cY < 869 / 1000" unfolding cY_def by linarith+
  have "\<bar>mcos 0 - 1\<bar> \<le> 1 / 1000" using c [of 0] by simp
  then have cX: "999 / 1000 \<le> cX" "cX \<le> 1001 / 1000"
    unfolding cX_def by linarith+
  have v1: "3456 / 100 < 40 * cY" "40 * cY < 3476 / 100" using cY by simp_all
  then have "\<bar>40 * cY\<bar> \<le> 2000" by linarith
  then have "\<bar>a1 - 40 * cY\<bar> \<le> 1 / 1000000" unfolding a1_def by (rule toDouble_coarse)
  with v1 have a1: "3455 / 100 < a1" "a1 < 3477 / 100" by linarith+
  then have "\<bar>a1\<bar> \<le> 2000" by linarith
  then have "\<bar>z1 - a1\<bar> \<le> 1 / 1000000" unfolding z1_def by (rule toDouble_coarse)
  with a1 have z1: "3454 / 100 < z1" "z1 < 3478 / 100" by linarith+
  have lo: "3454 / 100 * (999 / 1000) \<le> z1 * cX"
    using z1 cX by (intro mult_mono) simp_all
  have hi: "z1 * cX \<le> 3478 / 100 * (1001 / 1000)"
    using z1 cX by (intro mult_mono) simp_all
  from lo hi have v2: "345 / 10 < z1 * cX" "z1 * cX < 3482 / 100" by simp_all
  then have "\<bar>z1 * cX\<bar> \<le> 2000" by linarith
  then have "\<bar>a2 - z1 * cX\<bar> \<le> 1 / 1000000" unfolding a2_def by (rule toDouble_coarse)
  with v2 have a2: "3449 / 100 < a2" "a2 < 3483 / 100" by linarith+
  then have "\<bar>a2\<bar> \<le> 2000" by linarith
  then have "\<bar>z2 - a2\<bar> \<le> 1 / 1000000" unfolding z2_def by (rule toDouble_coarse)
  with a2 have "344 / 10 < z2" "z2 < 349 / 10" by linarith+
  then show ?thesis unfolding depth by simp
qed

lemma key_at_yaw_30:
  assumes c: "\<And>t. \<bar>mcos t - cos t\<bar> \<le> 1 / 1000"
  shows "pos_zIndex (get3DPosition mcos msin \<lparr>rot_x = 0, rot_y = 30\<rparr> 4 0 5) = 965
       \<and> 965 < fsub 1000 (spec_depth mcos msin \<lparr>rot_x = 0, rot_y = 30\<rparr> 4 0 5)
       \<and> fsub 1000 (spec_depth mcos msin \<lparr>rot_x = 0, rot_y = 30\<rparr> 4 0 5) < 966"
proof -
  define d where "d = spec_depth mcos msin \<lparr>rot_x = 0, rot_y = 30\<rparr> 4 0 5"
  have d: "344 / 10 < d" "d < 349 / 10"
    using depth_at_yaw_30 [of mcos msin, OF c] unfolding d_def by simp_all
  then have "\<bar>1000 - d\<bar> \<le> 2000" by linarith
  then have "\<bar>fsub 1000 d - (1000 - d)\<bar> \<le> 1 / 1000000"
    unfolding fsub_def by (rule toDouble_coarse)
  with d have k: "965 < fsub 1000 d" "fsub 1000 d < 966" by linarith+
  then have "\<lfloor>fsub 1000 d\<rfloor> = 965" by linarith
  then have "pos_zIndex (get3DPosition mcos msin \<lparr>rot_x = 0, rot_y = 30\<rparr> 4 0 5) = 965"
    by (simp add: get3DPosition_spec d_def)
  with k show ?thesis unfolding d_def by simp
qed

lemma roundedCos_close: "\<bar>roundedCos t - cos t\<bar> \<le> 1 / 1000"
proof -
  have "\<bar>cos t\<bar> \<le> 2000" using abs_cos_le_one [of t] by linarith
  then have "\<bar>toDouble (cos t) - cos t\<bar> \<le> 1 / 1000000" by (rule toDouble_coarse)
  then show ?thesis unfolding roundedCos_def by linarith
qed

text \<open>
  Claim C1 as stated fails: with the camera at x = 0, y = 30 degrees, the block at
  \<open>(4, 0, 5)\<close> has a depth near \<open>40 * cos 30\<degree>\<close>, between 34.4 and 34.9, and the key is
  965, which is neither 1000 minus the depth nor its double. The engine here rounds the
  cosine correctly; by \<open>key_at_yaw_30\<close> any engine of the stated accuracy gives the same
  key.
\<close>

theorem get3DPosition_key_floor_counterexample:
  "pos_zIndex (get3DPosition roundedCos roundedSin \<lparr>rot_x = 0, rot_y = 30\<rparr> 4 0 5) = 965
   \<and> 344 / 10 < spec_depth roundedCos roundedSin \<lparr>rot_x = 0, rot_y = 30\<rparr> 4 0 5
   \<and> spec_depth roundedCos roundedSin \<lparr>rot_x = 0, rot_y = 30\<rparr> 4 0 5 < 349 / 10
   \<and> real_of_int (pos_zIndex (get3DPosition roundedCos roundedSin \<lparr>rot_x = 0, rot_y = 30\<rparr> 4 0 5))
        \<noteq> 1000 - spec_depth roundedCos roundedSin \<lparr>rot_x = 0, rot_y = 30\<rparr> 4 0 5
   \<and> real_of_int (pos_zIndex (get3DPosition roundedCos roundedSin \<lparr>rot_x = 0, rot_y = 30\<rparr> 4 0 5))
        \<noteq> fsub 1000 (spec_depth roundedCos roundedSin \<lparr>rot_x = 0, rot_y = 30\<rparr> 4 0 5)"
  using key_at_yaw_30 [of roundedCos roundedSin, OF roundedCos_close]
    depth_at_yaw_30 [of roundedCos roundedSin, OF roundedCos_close]
  by simp

section \<open>Claims about the build button\<close>

text \<open>In every state of the page proper a material is selected and no block is below
  height 0: generation, a click on a tile and a build click only produce heights from 0
  upwards.\<close>

lemma genCell_heights:
  "list_all (\<lambda>b. 0 \<le> blk_y b) (fst acc) \<Longrightarrow>
   list_all (\<lambda>b. 0 \<le> blk_y b) (fst (genCell rnd x z acc))"
  by (simp add: genCell_def Let_def)

lemma genTree_heights:
  "list_all (\<lambda>b. 0 \<le> blk_y b) (fst acc) \<Longrightarrow>
   list_all (\<lambda>b. 0 \<le> blk_y b) (fst (genTree rnd acc))"
  by (simp add: genTree_def Let_def)

lemma initialWorld_heights: "list_all (\<lambda>b. 0 \<le> blk_y b) (initialWorld rnd)"
proof -
  let ?P = "\<lambda>acc :: Block list \<times> nat. list_all (\<lambda>b. 0 \<le> blk_y b) (fst acc)"
  have row: "?P acc \<Longrightarrow> ?P (fold (\<lambda>z. genCell rnd x z) zs acc)" for x zs acc
    by (rule fold_preserves [where P = ?P]) (simp_all add: genCell_heights)
  have ground: "?P (genGround rnd)"
    unfolding genGround_def
  proof (rule fold_preserves [where P = ?P])
    show "?P ([], 0)" by simp
  next
    fix x and acc :: "Block list \<times> nat"
    assume "?P acc"
    then show "?P (fold (\<lambda>z. genCell rnd x z) [0..WORLD_SIZE - 1] acc)" by (rule row)
  qed
  have "?P (fold (\<lambda>i. genTree rnd) [0 ..< 3] (genGround rnd))"
    by (rule fold_preserves [where P = ?P]) (simp_all add: genTree_heights ground)
  then show ?thesis by (simp add: initialWorld_def)
qed

lemma foldr_max_nonneg: "0 \<le> foldr max ys (0::int)"
  by (induction ys) simp_all

lemma heights_handleBlockClick:
  assumes "list_all (\<lambda>b. 0 \<le> blk_y b) (world s)" and "c \<longrightarrow> 0 \<le> y"
  shows "list_all (\<lambda>b. 0 \<le> blk_y b) (world (handleBlockClick x y z c s))"
  using assms by (auto simp: handleBlockClick_def addBlock_def removeBlockAt_def list_all_iff)

lemma heights_step:
  assumes "list_all (\<lambda>b. 0 \<le> blk_y b) (world s)" and "onTile ev s"
  shows "list_all (\<lambda>b. 0 \<le> blk_y b) (world (step ev s))"
proof (cases ev)
  case (Mount rnd)
  then show ?thesis by (simp add: initialWorld_heights)
next
  case (BlockClick x y z)
  then show ?thesis using assms(1) by (simp add: heights_handleBlockClick)
next
  case (BlockContextMenu x y z)
  then have "0 \<le> y" using assms by (auto simp: list_ex_iff list_all_iff)
  with BlockContextMenu show ?thesis using assms(1) by (simp add: heights_handleBlockClick)
next
  case Destroy
  then show ?thesis using assms(1)
    by (simp add: destroyClick_def heights_handleBlockClick split: option.split)
next
  case Build
  then show ?thesis using assms(1)
    by (simp add: buildClick_def Let_def heights_handleBlockClick foldr_max_nonneg)
next
  case (PointerMove e)
  then show ?thesis using assms(1) by (simp add: handlePointerMove_def Let_def)
qed (use assms(1) in \<open>simp_all add: handlePointerDown_def handlePointerUp_def
      toggleInventory_def selectItem_def\<close>)

lemma uiReachable_invariant:
  "uiReachable s \<Longrightarrow> selectedBlock s \<noteq> air \<and> list_all (\<lambda>b. 0 \<le> blk_y b) (world s)"
proof (induction rule: uiReachable.induct)
  case ui_init
  show ?case by (simp add: initialState_def)
next
  case (ui_step s ev)
  have "selectedBlock (step ev s) \<noteq> air"
    using ui_step.IH step_selected [of ev s] by (auto simp: inventory_def)
  moreover have "list_all (\<lambda>b. 0 \<le> blk_y b) (world (step ev s))"
    using ui_step.IH ui_step.hyps(2) by (simp add: heights_step)
  ultimately show ?case by simp
qed

lemma buildClick_add:
  "selectedBlock s \<noteq> air \<Longrightarrow>
   buildClick s =
     s\<lparr>world := world s @
        [\<lparr>blk_type = selectedBlock s, blk_x = 4,
          blk_y = foldr max (columnHeights 4 4 (world s)) 0 + 1, blk_z = 4\<rparr>]\<rparr>"
  by (simp add: buildClick_def handleBlockClick_def addBlock_def columnHeights_def Let_def
      WORLD_SIZE_def)

lemma column_top:
  assumes "list_all (\<lambda>b. 0 \<le> blk_y b) w"
  shows "foldr max (columnHeights x z w) 0 + 1 =
           (if columnHeights x z w = [] then 1 else 1 + Max (set (columnHeights x z w)))"
proof (cases "columnHeights x z w")
  case Nil
  then show ?thesis by simp
next
  case (Cons h hs)
  have "h \<in> set (columnHeights x z w)" using Cons by simp
  moreover from this have "0 \<le> h"
    using assms by (auto simp: columnHeights_def list_all_iff)
  ultimately have "foldr max (columnHeights x z w) 0 = Max (set (columnHeights x z w))"
    by (rule foldr_max_nonneg_column)
  with Cons show ?thesis by simp
qed

text \<open>
  Claim C5, as the code has it. The build button takes no column: it works on the centre
  column \<open>(4, 4)\<close>. In every state the page can reach, a build click changes nothing but
  the world, to which it appends exactly one block of the selected material at
  \<open>(4, y, 4)\<close>, where \<open>y\<close> is 1 when the column holds no block and 1 plus the maximum
  height of its blocks otherwise; the selected material is never \<open>air\<close>. On the world
  that holds one block at \<open>(0, 0, 0)\<close>, with stone selected, the new block is stone at
  \<open>(4, 1, 4)\<close>.
\<close>

theorem build_on_centre_column:
  assumes "uiReachable s"
  shows "buildClick s =
           s\<lparr>world := world s @
              [\<lparr>blk_type = selectedBlock s, blk_x = 4,
                blk_y = (if columnHeights 4 4 (world s) = [] then 1
                         else 1 + Max (set (columnHeights 4 4 (world s)))),
                blk_z = 4\<rparr>]\<rparr>
       \<and> selectedBlock s \<noteq> air
       \<and> world (buildClick
            (initialState\<lparr>world := [\<lparr>blk_type = grass, blk_x = 0, blk_y = 0, blk_z = 0\<rparr>],
                          selectedBlock := stone\<rparr>)) =
           [\<lparr>blk_type = grass, blk_x = 0, blk_y = 0, blk_z = 0\<rparr>,
            \<lparr>blk_type = stone, blk_x = 4, blk_y = 1, blk_z = 4\<rparr>]"
proof -
  have inv: "selectedBlock s \<noteq> air" "list_all (\<lambda>b. 0 \<le> blk_y b) (world s)"
    using uiReachable_invariant [OF assms] by simp_all
  have "buildClick s =
           s\<lparr>world := world s @
              [\<lparr>blk_type = selectedBlock s, blk_x = 4,
                blk_y = (if columnHeights 4 4 (world s) = [] then 1
                         else 1 + Max (set (columnHeights 4 4 (world s)))),
                blk_z = 4\<rparr>]\<rparr>"
    using buildClick_add [OF inv(1)] column_top [OF inv(2), of 4 4] by simp
  moreover have "world (buildClick
            (initialState\<lparr>world := [\<lparr>blk_type = grass, blk_x = 0, blk_y = 0, blk_z = 0\<rparr>],
                          selectedBlock := stone\<rparr>)) =
           [\<lparr>blk_type = grass, blk_x = 0, blk_y = 0, blk_z = 0\<rparr>,
            \<lparr>blk_type = stone, blk_x = 4, blk_y = 1, blk_z = 4\<rparr>]"
    by (simp add: buildClick_def handleBlockClick_def addBlock_def Let_def WORLD_SIZE_def
        initialState_def)
  ultimately show ?thesis using inv(1) by blast
qed

text \<open>Reaching states: a left click at any position leads to a reachable state (on a tile
  it is a click, elsewhere nothing changes), so every world that keeps the blocks of one
  position of a reachable world is reachable.\<close>

lemma ui_left_click:
  assumes "uiReachable s"
  shows "uiReachable (s\<lparr>world := removeBlockAt x y z (world s)\<rparr>)"
proof (cases "onTile (BlockClick x y z) s")
  case True
  with assms have "uiReachable (step (BlockClick x y z) s)" by (rule ui_step)
  then show ?thesis by (simp add: handleBlockClick_def)
next
  case False
  then have "removeBlockAt x y z (world s) = world s"
    by (simp add: removeBlockAt_no_match list_ex_iff)
  with assms show ?thesis by simp
qed

lemma ui_remove_positions:
  "uiReachable s \<Longrightarrow>
   uiReachable
     (s\<lparr>world := filter (\<lambda>b. (blk_x b, blk_y b, blk_z b) \<notin> set ps) (world s)\<rparr>)"
proof (induction ps arbitrary: s)
  case Nil
  then show ?case by simp
next
  case (Cons p ps)
  obtain x y z where p: "p = (x, y, z)" by (cases p)
  let ?s1 = "s\<lparr>world := removeBlockAt x y z (world s)\<rparr>"
  have "uiReachable ?s1" using Cons.prems by (rule ui_left_click)
  then have "uiReachable
     (?s1\<lparr>world := filter (\<lambda>b. (blk_x b, blk_y b, blk_z b) \<notin> set ps) (world ?s1)\<rparr>)"
    by (rule Cons.IH)
  moreover have "filter (\<lambda>b. (blk_x b, blk_y b, blk_z b) \<notin> set ps)
        (removeBlockAt x y z (world s)) =
      filter (\<lambda>b. (blk_x b, blk_y b, blk_z b) \<notin> set (p # ps)) (world s)"
    by (auto simp: removeBlockAt_def p intro: filter_cong)
  ultimately show ?case by simp
qed

lemma filter_others_out:
  "filter (\<lambda>b. f b \<notin> set (map f (filter (\<lambda>c. f c \<noteq> a) w))) w = filter (\<lambda>b. f b = a) w"
  by (rule filter_cong) auto

lemma ui_keep_position:
  assumes "uiReachable s"
  shows "uiReachable
     (s\<lparr>world := filter (\<lambda>b. (blk_x b, blk_y b, blk_z b) = a) (world s)\<rparr>)"
  using ui_remove_positions [OF assms,
      of "map (\<lambda>b. (blk_x b, blk_y b, blk_z b))
            (filter (\<lambda>c. (blk_x c, blk_y c, blk_z c) \<noteq> a) (world s))"]
  by (simp only: filter_others_out)

lemma initialWorld_zero:
  "initialWorld (\<lambda>n. 0) =
     concat (map (\<lambda>x. map (\<lambda>z. \<lparr>blk_type = grass, blk_x = x, blk_y = 0, blk_z = z\<rparr>)
                          [0, 1, 2, 3, 4, 5, 6, 7]) [0, 1, 2, 3, 4, 5, 6, 7])
     @ concat (replicate 3
         [\<lparr>blk_type = wood, blk_x = 0, blk_y = 1, blk_z = 0\<rparr>,
          \<lparr>blk_type = wood, blk_x = 0, blk_y = 2, blk_z = 0\<rparr>,
          \<lparr>blk_type = leaves, blk_x = 0, blk_y = 3, blk_z = 0\<rparr>])"
  by (simp add: initialWorld_def genGround_def genTree_def genCell_def WORLD_SIZE_def upto_rec1
      Let_def numeral_3_eq_3)

lemma origin_of_initialWorld:
  "filter (\<lambda>b. blk_x b = 0 \<and> blk_y b = 0 \<and> blk_z b = 0) (initialWorld (\<lambda>n. 0)) =
     [\<lparr>blk_type = grass, blk_x = 0, blk_y = 0, blk_z = 0\<rparr>]"
  by (simp add: initialWorld_zero numeral_3_eq_3)

lemma centre_of_initialWorld:
  "columnHeights 4 4 (initialWorld (\<lambda>n. 0)) = [0]"
  "list_ex (\<lambda>b. blk_x b = 4 \<and> blk_y b = 0 \<and> blk_z b = 4) (initialWorld (\<lambda>n. 0))"
  by (simp_all add: initialWorld_zero columnHeights_def numeral_3_eq_3)

lemma ui_mounted: "uiReachable (initialState\<lparr>world := initialWorld rnd\<rparr>)"
proof -
  have "uiReachable (step (Mount rnd) initialState)"
    by (rule ui_step) (simp_all add: ui_init)
  then show ?thesis by simp
qed

lemma ui_origin_stone:
  "uiReachable
     (initialState\<lparr>world := [\<lparr>blk_type = grass, blk_x = 0, blk_y = 0, blk_z = 0\<rparr>],
                   selectedBlock := stone\<rparr>)"
proof -
  let ?g = "\<lparr>blk_type = grass, blk_x = 0, blk_y = 0, blk_z = 0\<rparr>"
  let ?item = "\<lparr>inv_type = stone, inv_count = 64, inv_color = ''#808080''\<rparr>"
  have "uiReachable (initialState\<lparr>world := [?g]\<rparr>)"
    using ui_keep_position [OF ui_mounted, of "(0, 0, 0)" "\<lambda>n. 0"]
    by (simp add: origin_of_initialWorld)
  then have "uiReachable (step ToggleInventory (initialState\<lparr>world := [?g]\<rparr>))"
    by (rule ui_step) simp
  then have "uiReachable (step (SelectItem ?item)
      (step ToggleInventory (initialState\<lparr>world := [?g]\<rparr>)))"
    by (rule ui_step) simp
  moreover have "step (SelectItem ?item)
      (step ToggleInventory (initialState\<lparr>world := [?g]\<rparr>)) =
      initialState\<lparr>world := [?g], selectedBlock := stone\<rparr>"
    by (simp add: inventory_def selectItem_def toggleInventory_def initialState_def)
  ultimately show ?thesis by simp
qed

text \<open>The theorem of C5 after the mount, a right click on the tile \<open>(4, 0, 4)\<close> and a build
  click: the centre column holds heights 0 and 1, and the new block is at height 2.\<close>

theorem build_on_centre_column_witness:
  "uiReachable (step (BlockContextMenu 4 0 4) (step (Mount (\<lambda>n. 0)) initialState))
   \<and> world (buildClick (step (BlockContextMenu 4 0 4) (step (Mount (\<lambda>n. 0)) initialState))) =
       initialWorld (\<lambda>n. 0)
         @ [\<lparr>blk_type = grass, blk_x = 4, blk_y = 1, blk_z = 4\<rparr>,
            \<lparr>blk_type = grass, blk_x = 4, blk_y = 2, blk_z = 4\<rparr>]"
proof -
  let ?s = "step (BlockContextMenu 4 0 4) (step (Mount (\<lambda>n. 0)) initialState)"
  have m: "uiReachable (step (Mount (\<lambda>n. 0)) initialState)"
    by (rule ui_step) (simp_all add: ui_init)
  have r: "uiReachable ?s"
    using m by (rule ui_step) (simp add: centre_of_initialWorld)
  have w: "world ?s = initialWorld (\<lambda>n. 0)
      @ [\<lparr>blk_type = grass, blk_x = 4, blk_y = 1, blk_z = 4\<rparr>]"
    by (simp add: handleBlockClick_def addBlock_def initialState_def)
  have sel: "selectedBlock ?s = grass"
    by (simp add: handleBlockClick_def initialState_def)
  have col: "columnHeights 4 4 (world ?s) = [0, 1]"
    unfolding w using centre_of_initialWorld(1) by (simp add: columnHeights_def)
  from build_on_centre_column [OF r]
  have "buildClick ?s = ?s\<lparr>world := world ?s @
      [\<lparr>blk_type = selectedBlock ?s, blk_x = 4,
        blk_y = (if columnHeights 4 4 (world ?s) = [] then 1
                 else 1 + Max (set (columnHeights 4 4 (world ?s)))),
        blk_z = 4\<rparr>]\<rparr>"
    by (rule conjunct1)
  then have "world (buildClick ?s) = world ?s @
      [\<lparr>blk_type = grass, blk_x = 4, blk_y = 2, blk_z = 4\<rparr>]"
    unfolding col sel by simp
  with r w show ?thesis by simp
qed

text \<open>
  Claim C5 as stated fails: the build operation cannot be aimed at a column. The state
  with a single block at \<open>(0, 0, 0)\<close> and stone selected is reached by the mount, a left
  click on every other tile, and the stone button of the inventory. A build click there
  puts the stone at \<open>(4, 1, 4)\<close>, and no block at \<open>(0, 1, 0)\<close>.
\<close>

theorem build_ignores_column_counterexample:
  "uiReachable
     (initialState\<lparr>world := [\<lparr>blk_type = grass, blk_x = 0, blk_y = 0, blk_z = 0\<rparr>],
                   selectedBlock := stone\<rparr>)
   \<and> world (buildClick
        (initialState\<lparr>world := [\<lparr>blk_type = grass, blk_x = 0, blk_y = 0, blk_z = 0\<rparr>],
                      selectedBlock := stone\<rparr>)) =
       [\<lparr>blk_type = grass, blk_x = 0, blk_y = 0, blk_z = 0\<rparr>,
        \<lparr>blk_type = stone, blk_x = 4, blk_y = 1, blk_z = 4\<rparr>]
   \<and> filter (\<lambda>b. blk_x b = 0 \<and> blk_y b = 1 \<and> blk_z b = 0)
        (world (buildClick
          (initialState\<lparr>world := [\<lparr>blk_type = grass, blk_x = 0, blk_y = 0, blk_z = 0\<rparr>],
                        selectedBlock := stone\<rparr>))) = []"
proof -
  have "world (buildClick
        (initialState\<lparr>world := [\<lparr>blk_type = grass, blk_x = 0, blk_y = 0, blk_z = 0\<rparr>],
                      selectedBlock := stone\<rparr>)) =
       [\<lparr>blk_type = grass, blk_x = 0, blk_y = 0, blk_z = 0\<rparr>,
        \<lparr>blk_type = stone, blk_x = 4, blk_y = 1, blk_z = 4\<rparr>]"
    by (simp add: buildClick_def handleBlockClick_def addBlock_def Let_def WORLD_SIZE_def
        initialState_def)
  with ui_origin_stone show ?thesis by simp
qed

end
